theory Spec2Isabelle
  imports Complex_Main
begin

section \<open>Focus management of renpy/display/focus.py\<close>

text \<open>
  Coordinates, multipliers and distances are Python numbers (pixel integers, and floats
  once an anchor fraction such as 0.9 is applied). They are modelled as exact reals:
  every claim below depends only on the order and the ring operations.
\<close>

datatype error = AssertionError | AttributeError

subsection \<open>Geometry utilities\<close>

text \<open>\<^verbatim>\<open>points_dist(x0, y0, x1, y1, xfudge, yfudge)\<close>\<close>

definition points_dist :: "real \<Rightarrow> real \<Rightarrow> real \<Rightarrow> real \<Rightarrow> real \<Rightarrow> real \<Rightarrow> real" where
  "points_dist x0 y0 x1 y1 xfudge yfudge =
     ((x0 - x1) * xfudge) ^ 2 + ((y0 - y1) * yfudge) ^ 2"

text \<open>
  \<^verbatim>\<open>horiz_line_dist\<close> and \<^verbatim>\<open>verti_line_dist\<close>. The first argument \<open>pen\<close> is
  \<^verbatim>\<open>renpy.config.focus_crossrange_penalty\<close>, a configuration value that the module
  reads and does not define. The closing \<^verbatim>\<open>assert False\<close> is the \<open>Inl\<close> branch.
  A Python chain \<^verbatim>\<open>a <= b <= c <= d\<close> is the conjunction of its three comparisons.
\<close>

definition horiz_line_dist ::
  "real \<Rightarrow> real \<Rightarrow> real \<Rightarrow> real \<Rightarrow> real \<Rightarrow> real \<Rightarrow> real \<Rightarrow> real \<Rightarrow> real \<Rightarrow> error + real" where
  "horiz_line_dist pen ax0 ay0 ax1 ay1 bx0 by0 bx1 by1 =
     (if (bx0 \<le> ax0 \<and> ax0 \<le> ax1 \<and> ax1 \<le> bx1) \<or>
         (ax0 \<le> bx0 \<and> bx0 \<le> bx1 \<and> bx1 \<le> ax1) \<or>
         (ax0 \<le> bx0 \<and> bx0 \<le> ax1 \<and> ax1 \<le> bx1) \<or>
         (bx0 \<le> ax0 \<and> ax0 \<le> bx1 \<and> bx1 \<le> ax1)
      then Inr ((ay0 - by0) ^ 2)
      else if ax0 \<le> ax1 \<and> ax1 \<le> bx0 \<and> bx0 \<le> bx1
      then Inr (points_dist ax1 ay1 bx0 by0 pen 1)
      else if bx0 \<le> bx1 \<and> bx1 \<le> ax0 \<and> ax0 \<le> ax1
      then Inr (points_dist ax0 ay0 bx1 by1 pen 1)
      else Inl AssertionError)"

definition verti_line_dist ::
  "real \<Rightarrow> real \<Rightarrow> real \<Rightarrow> real \<Rightarrow> real \<Rightarrow> real \<Rightarrow> real \<Rightarrow> real \<Rightarrow> real \<Rightarrow> error + real" where
  "verti_line_dist pen ax0 ay0 ax1 ay1 bx0 by0 bx1 by1 =
     (if (by0 \<le> ay0 \<and> ay0 \<le> ay1 \<and> ay1 \<le> by1) \<or>
         (ay0 \<le> by0 \<and> by0 \<le> by1 \<and> by1 \<le> ay1) \<or>
         (ay0 \<le> by0 \<and> by0 \<le> ay1 \<and> ay1 \<le> by1) \<or>
         (by0 \<le> ay0 \<and> ay0 \<le> by1 \<and> by1 \<le> ay1)
      then Inr ((ax0 - bx0) ^ 2)
      else if ay0 \<le> ay1 \<and> ay1 \<le> by0 \<and> by0 \<le> by1
      then Inr (points_dist ax1 ay1 bx0 by0 1 pen)
      else if by0 \<le> by1 \<and> by1 \<le> ay0 \<and> ay0 \<le> ay1
      then Inr (points_dist ax0 ay0 bx1 by1 1 pen)
      else Inl AssertionError)"

subsection \<open>Focus objects and the focus registry\<close>

text \<open>
  A widget is an object of the display system; the module only holds references to
  widgets and compares them, so a widget is its reference. \<^verbatim>\<open>class Focus\<close> has the
  fields \<open>widget, arg, x, y, w, h\<close>; \<open>x\<close> is \<^verbatim>\<open>None\<close> for a focus without a place.
  \<open>y\<close>, \<open>w\<close> and \<open>h\<close> are read only after \<open>x\<close> was found present, and are numbers then.
  Neither a widget nor a \<^verbatim>\<open>Focus\<close> object defines a truth value of its own, so the
  tests \<^verbatim>\<open>if grab:\<close>, \<^verbatim>\<open>if not current:\<close>, \<^verbatim>\<open>if current:\<close>, \<^verbatim>\<open>if max_focus:\<close> and
  \<^verbatim>\<open>new_focus or placeless\<close> are tests against \<^verbatim>\<open>None\<close>; the test \<^verbatim>\<open>if not f.x\<close> is on
  a number and is not.
\<close>

type_synonym wid = nat

type_synonym name_key = "string \<times> nat"

record Focus =
  widget :: wid
  arg :: string
  x :: "real option"
  y :: real
  w :: real
  h :: real

text \<open>
  The calls \<^verbatim>\<open>widget.unfocus()\<close>, \<^verbatim>\<open>widget.focus()\<close> and \<^verbatim>\<open>widget.focus(default=True)\<close>
  go to methods outside the module. Each call is recorded in a trace, together with
  what \<^verbatim>\<open>get_focused()\<close> would return while the call runs.
\<close>

datatype event = Unfocus wid | FocusCall wid bool

text \<open>
  The module's globals \<^verbatim>\<open>grab\<close> and \<^verbatim>\<open>focus_list\<close>, the slot
  \<^verbatim>\<open>renpy.game.context().scene_lists.focused\<close>, and the two attributes of widgets the
  module uses: \<^verbatim>\<open>full_focus_name\<close> (written and read; \<open>None\<close> while never assigned) and
  \<^verbatim>\<open>default\<close> (only read).
\<close>

record state =
  focused :: "wid option"
  grab :: "wid option"
  focus_list :: "Focus list"
  full_focus_name :: "wid \<Rightarrow> name_key option"
  default_flag :: "wid \<Rightarrow> bool"
  trace :: "(event \<times> wid option) list"

definition set_focused :: "wid option \<Rightarrow> state \<Rightarrow> state" where
  "set_focused widget' s = s\<lparr>focused := widget'\<rparr>"

definition get_focused :: "state \<Rightarrow> wid option" where
  "get_focused s = focused s"

definition set_grab :: "wid option \<Rightarrow> state \<Rightarrow> state" where
  "set_grab widget' s = s\<lparr>grab := widget'\<rparr>"

definition get_grab :: "state \<Rightarrow> wid option" where
  "get_grab s = grab s"

definition take_focuses :: "Focus list \<Rightarrow> state \<Rightarrow> state" where
  "take_focuses fl s = s\<lparr>focus_list := fl\<rparr>"

definition call :: "event \<Rightarrow> state \<Rightarrow> state" where
  "call e s = s\<lparr>trace := trace s @ [(e, get_focused s)]\<rparr>"

subsection \<open>\<^verbatim>\<open>before_interact\<close>\<close>

text \<open>
  The list \<open>fwn\<close> is what \<^verbatim>\<open>root.find_focusable(callback, None)\<close> collects: pairs of a
  widget and its name, in traversal order. The first loop counts the names in the
  dictionary \<^verbatim>\<open>namecount\<close> and writes each widget's \<^verbatim>\<open>full_focus_name\<close>.
\<close>

fun assign_names ::
  "(wid \<times> string) list \<Rightarrow> (string \<rightharpoonup> nat) \<Rightarrow> (wid \<Rightarrow> name_key option) \<Rightarrow> (wid \<Rightarrow> name_key option)" where
  "assign_names [] namecount ffn = ffn"
| "assign_names ((f, n) # fwn) namecount ffn =
     (let serial = (case namecount n of None \<Rightarrow> 0 | Some c \<Rightarrow> c)
      in assign_names fwn (namecount(n \<mapsto> serial + 1)) (ffn(f \<mapsto> (n, serial))))"

text \<open>
  The second loop: the first enumerated widget whose \<^verbatim>\<open>full_focus_name\<close> equals that
  of the current widget; \<open>None\<close> is the loop's \<^verbatim>\<open>else\<close>. Every enumerated widget was
  given a name by the first loop, so reading its attribute cannot fail.
\<close>

fun find_same_name ::
  "(wid \<times> string) list \<Rightarrow> (wid \<Rightarrow> name_key option) \<Rightarrow> name_key \<Rightarrow> wid option" where
  "find_same_name [] ffn k = None"
| "find_same_name ((f, n) # fwn) ffn k =
     (if ffn f = Some k then Some f else find_same_name fwn ffn k)"

text \<open>The third loop: the first enumerated widget with \<^verbatim>\<open>f.default\<close> true.\<close>

fun find_default :: "(wid \<times> string) list \<Rightarrow> (wid \<Rightarrow> bool) \<Rightarrow> wid option" where
  "find_default [] dflt = None"
| "find_default ((f, n) # fwn) dflt = (if dflt f then Some f else find_default fwn dflt)"

text \<open>The last loop: \<^verbatim>\<open>unfocus\<close> for every enumerated widget that is not \<open>current\<close>.\<close>

fun unfocus_others :: "(wid \<times> string) list \<Rightarrow> wid option \<Rightarrow> state \<Rightarrow> state" where
  "unfocus_others [] current s = s"
| "unfocus_others ((f, n) # fwn) current s =
     (if Some f \<noteq> current then unfocus_others fwn current (call (Unfocus f) s)
      else unfocus_others fwn current s)"

text \<open>
  The whole pass. Reading \<^verbatim>\<open>current.full_focus_name\<close> of a widget that never got one
  raises; the globals written before that point keep their new values, so the error
  carries the state.
\<close>

definition before_interact :: "(wid \<times> string) list \<Rightarrow> state \<Rightarrow> (error \<times> state) + state" where
  "before_interact fwn s =
     (let s1 = s\<lparr>grab := None\<rparr>;
          s2 = s1\<lparr>full_focus_name := assign_names fwn Map.empty (full_focus_name s1)\<rparr>;
          matched =
            (case get_focused s2 of
               None \<Rightarrow> Inr (None, s2)
             | Some c \<Rightarrow>
                 (case full_focus_name s2 c of
                    None \<Rightarrow> Inl (AttributeError, s2)
                  | Some current_name \<Rightarrow>
                      (case find_same_name fwn (full_focus_name s2) current_name of
                         Some f \<Rightarrow> Inr (Some f, set_focused (Some f) s2)
                       | None \<Rightarrow> Inr (None, s2))))
      in case matched of
           Inl e \<Rightarrow> Inl e
         | Inr (current, s3) \<Rightarrow>
             (let (current', s4) =
                    (if current = None
                     then (case find_default fwn (default_flag s3) of
                             Some f \<Rightarrow> (Some f, set_focused (Some f) s3)
                           | None \<Rightarrow> (None, set_focused None s3))
                     else (current, s3));
                  s5 = unfocus_others fwn current' s4
              in Inr (case current' of
                        None \<Rightarrow> s5
                      | Some c \<Rightarrow> call (FocusCall c True) s5)))"

text \<open>The state a pass leaves behind, whether it returned or raised.\<close>

definition state_after :: "(error \<times> state) + state \<Rightarrow> state" where
  "state_after r = (case r of Inl (e, s) \<Rightarrow> s | Inr s \<Rightarrow> s)"

subsection \<open>\<^verbatim>\<open>change_focus\<close>, \<^verbatim>\<open>mouse_handler\<close>, \<^verbatim>\<open>focus_extreme\<close>\<close>

definition change_focus :: "Focus option \<Rightarrow> state \<Rightarrow> state" where
  "change_focus newfocus s =
     (if grab s \<noteq> None then s
      else
        (let widget' = (case newfocus of None \<Rightarrow> None | Some nf \<Rightarrow> Some (widget nf));
             current = get_focused s
         in if current = widget' then s
            else
              (let s1 = (case current of None \<Rightarrow> s | Some c \<Rightarrow> call (Unfocus c) s);
                   s2 = (case widget' of None \<Rightarrow> s1 | Some v \<Rightarrow> call (FocusCall v False) s1)
               in set_focused widget' s2)))"

text \<open>
  The loop of \<^verbatim>\<open>mouse_handler\<close>, with the running value of \<^verbatim>\<open>default\<close>; the empty
  list is the loop's \<^verbatim>\<open>else\<close>, a hit is its \<^verbatim>\<open>break\<close>.
\<close>

fun mouse_scan :: "Focus list \<Rightarrow> real \<Rightarrow> real \<Rightarrow> Focus option \<Rightarrow> Focus option" where
  "mouse_scan [] px py dflt = dflt"
| "mouse_scan (f # fl) px py dflt =
     (case x f of
        None \<Rightarrow> mouse_scan fl px py (Some f)
      | Some fx \<Rightarrow>
          if fx \<le> px \<and> px \<le> fx + w f \<and> y f \<le> py \<and> py \<le> y f + h f then Some f
          else mouse_scan fl px py dflt)"

definition mouse_handler :: "real \<times> real \<Rightarrow> state \<Rightarrow> state" where
  "mouse_handler pos s =
     (case pos of (px, py) \<Rightarrow> change_focus (mouse_scan (focus_list s) px py None) s)"

text \<open>
  The loop of \<^verbatim>\<open>focus_extreme\<close>. The test \<^verbatim>\<open>if not f.x\<close> is true for \<^verbatim>\<open>None\<close> and for
  the number zero.
\<close>

fun extreme_scan ::
  "Focus list \<Rightarrow> real \<Rightarrow> real \<Rightarrow> real \<Rightarrow> real \<Rightarrow> Focus option \<Rightarrow> real \<Rightarrow> Focus option" where
  "extreme_scan [] xmul ymul wmul hmul max_focus max_score = max_focus"
| "extreme_scan (f # fl) xmul ymul wmul hmul max_focus max_score =
     (case x f of
        None \<Rightarrow> extreme_scan fl xmul ymul wmul hmul max_focus max_score
      | Some fx \<Rightarrow>
          if fx = 0 then extreme_scan fl xmul ymul wmul hmul max_focus max_score
          else
            (let score = fx * xmul + y f * ymul + w f * wmul + h f * hmul
             in if score > max_score
                then extreme_scan fl xmul ymul wmul hmul (Some f) score
                else extreme_scan fl xmul ymul wmul hmul max_focus max_score))"

definition focus_extreme :: "real \<Rightarrow> real \<Rightarrow> real \<Rightarrow> real \<Rightarrow> state \<Rightarrow> state" where
  "focus_extreme xmul ymul wmul hmul s =
     (case extreme_scan (focus_list s) xmul ymul wmul hmul None (- (65536 ^ 2)) of
        None \<Rightarrow> s
      | Some max_focus \<Rightarrow> change_focus (Some max_focus) s)"

subsection \<open>\<^verbatim>\<open>focus_nearest\<close>\<close>

text \<open>
  The first loop of \<^verbatim>\<open>focus_nearest\<close>: the first focus whose widget is the current
  one, with its position in the list. The list holds one object per entry, so the later
  test \<^verbatim>\<open>f is from_focus\<close> is a test on positions.
\<close>

fun find_from :: "Focus list \<Rightarrow> wid \<Rightarrow> nat \<Rightarrow> (nat \<times> Focus) option" where
  "find_from [] current i = None"
| "find_from (f # fl) current i =
     (if widget f = current then Some (i, f) else find_from fl current (Suc i))"

text \<open>
  The distance of one candidate: its segment from the \<open>to\<close> fractions, then
  \<^verbatim>\<open>line_dist\<close>. It is called only for a focus with a place.
\<close>

definition candidate_dist ::
  "(real \<Rightarrow> real \<Rightarrow> real \<Rightarrow> real \<Rightarrow> real \<Rightarrow> real \<Rightarrow> real \<Rightarrow> real \<Rightarrow> error + real) \<Rightarrow>
   real \<Rightarrow> real \<Rightarrow> real \<Rightarrow> real \<Rightarrow> real \<Rightarrow> real \<Rightarrow> real \<Rightarrow> real \<Rightarrow> real \<Rightarrow> Focus \<Rightarrow> error + real" where
  "candidate_dist line_dist fx0 fy0 fx1 fy1 to_x0 to_y0 to_x1 to_y1 fx f =
     (let tx0 = fx + w f * to_x0;
          ty0 = y f + h f * to_y0;
          tx1 = fx + w f * to_x1;
          ty1 = y f + h f * to_y1
      in line_dist fx0 fy0 fx1 fy1 tx0 ty0 tx1 ty1)"

text \<open>
  The second loop, with the running values of \<^verbatim>\<open>placeless\<close>, \<^verbatim>\<open>new_focus\<close> and
  \<^verbatim>\<open>new_focus_dist\<close>. \<open>cond\<close> is \<^verbatim>\<open>condition(from_focus, f)\<close> and \<open>dist_of fx f\<close> the
  distance of \<open>f\<close>, whose \<open>x\<close> is \<open>fx\<close>; an assertion failing inside \<^verbatim>\<open>line_dist\<close> ends
  the loop.
\<close>

fun nearest_scan ::
  "(Focus \<Rightarrow> bool) \<Rightarrow> (real \<Rightarrow> Focus \<Rightarrow> error + real) \<Rightarrow> nat \<Rightarrow> nat \<Rightarrow> Focus list \<Rightarrow>
   Focus option \<Rightarrow> Focus option \<Rightarrow> real \<Rightarrow> error + (Focus option \<times> Focus option \<times> real)" where
  "nearest_scan cond dist_of from_i i [] placeless new_focus new_focus_dist =
     Inr (placeless, new_focus, new_focus_dist)"
| "nearest_scan cond dist_of from_i i (f # fl) placeless new_focus new_focus_dist =
     (if i = from_i then nearest_scan cond dist_of from_i (Suc i) fl placeless new_focus new_focus_dist
      else
        (case x f of
           None \<Rightarrow> nearest_scan cond dist_of from_i (Suc i) fl (Some f) new_focus new_focus_dist
         | Some fx \<Rightarrow>
             if \<not> cond f
             then nearest_scan cond dist_of from_i (Suc i) fl placeless new_focus new_focus_dist
             else
               (case dist_of fx f of
                  Inl e \<Rightarrow> Inl e
                | Inr d \<Rightarrow>
                    if d < new_focus_dist
                    then nearest_scan cond dist_of from_i (Suc i) fl placeless (Some f) d
                    else nearest_scan cond dist_of from_i (Suc i) fl placeless new_focus new_focus_dist)))"

text \<open>
  \<^verbatim>\<open>focus_nearest\<close>. \<open>pen\<close> is \<^verbatim>\<open>renpy.config.focus_crossrange_penalty\<close>, as above.
\<close>

definition focus_nearest ::
  "real \<Rightarrow> real \<Rightarrow> real \<Rightarrow> real \<Rightarrow> real \<Rightarrow> real \<Rightarrow> real \<Rightarrow> real \<Rightarrow>
   (real \<Rightarrow> real \<Rightarrow> real \<Rightarrow> real \<Rightarrow> real \<Rightarrow> real \<Rightarrow> real \<Rightarrow> real \<Rightarrow> error + real) \<Rightarrow>
   (Focus \<Rightarrow> Focus \<Rightarrow> bool) \<Rightarrow> real \<Rightarrow> real \<Rightarrow> real \<Rightarrow> real \<Rightarrow> real \<Rightarrow> state \<Rightarrow> error + state" where
  "focus_nearest from_x0 from_y0 from_x1 from_y1 to_x0 to_y0 to_x1 to_y1
       line_dist condition xmul ymul wmul hmul pen s =
     (case focus_list s of
        [] \<Rightarrow> Inr s
      | first # rest \<Rightarrow>
          (case get_focused s of
             None \<Rightarrow> Inr (change_focus (Some first) s)
           | Some current \<Rightarrow>
               (case find_from (focus_list s) current 0 of
                  None \<Rightarrow> Inr (change_focus (Some first) s)
                | Some (from_i, from_focus) \<Rightarrow>
                    (case x from_focus of
                       None \<Rightarrow> Inr (focus_extreme xmul ymul wmul hmul s)
                     | Some from_x \<Rightarrow>
                         (let fx0 = from_x + w from_focus * from_x0;
                              fy0 = y from_focus + h from_focus * from_y0;
                              fx1 = from_x + w from_focus * from_x1;
                              fy1 = y from_focus + h from_focus * from_y1
                          in case nearest_scan (condition from_focus)
                                    (candidate_dist line_dist fx0 fy0 fx1 fy1
                                       to_x0 to_y0 to_x1 to_y1)
                                    from_i 0 (focus_list s) None None ((65536 * pen) ^ 2) of
                               Inl e \<Rightarrow> Inl e
                             | Inr (placeless, new_focus, d) \<Rightarrow>
                                 (case (case new_focus of None \<Rightarrow> placeless | Some f \<Rightarrow> Some f) of
                                    None \<Rightarrow> Inr s
                                  | Some f \<Rightarrow> Inr (change_focus (Some f) s)))))))"

text \<open>
  The binding of \<^verbatim>\<open>key_handler\<close> for the action \<^verbatim>\<open>focus_right\<close>. Its condition
  \<^verbatim>\<open>old.x + old.w <= new.x\<close> is evaluated only on two focuses that have a place.
\<close>

definition right_of :: "Focus \<Rightarrow> Focus \<Rightarrow> bool" where
  "right_of old new =
     (case (x old, x new) of
        (Some ox, Some nx) \<Rightarrow> ox + w old \<le> nx
      | _ \<Rightarrow> False)"

definition focus_right :: "real \<Rightarrow> state \<Rightarrow> error + state" where
  "focus_right pen s =
     focus_nearest (9 / 10) (1 / 10) (9 / 10) (9 / 10) (1 / 10) (1 / 10) (1 / 10) (9 / 10)
       (verti_line_dist pen) right_of (- 1) 0 0 0 pen s"

subsection \<open>Derived notions used in the statements\<close>

text \<open>
  The widget on which the two searches of \<^verbatim>\<open>before_interact\<close> settle, read off the
  state before the pass: the match by \<^verbatim>\<open>full_focus_name\<close> if there is one, the first
  default widget otherwise.
\<close>

definition resolved_focus :: "(wid \<times> string) list \<Rightarrow> state \<Rightarrow> wid option" where
  "resolved_focus fwn s =
     (case focused s of
        None \<Rightarrow> find_default fwn (default_flag s)
      | Some c \<Rightarrow>
          (case assign_names fwn Map.empty (full_focus_name s) c of
             None \<Rightarrow> None
           | Some k \<Rightarrow>
               (case find_same_name fwn (assign_names fwn Map.empty (full_focus_name s)) k of
                  Some f \<Rightarrow> Some f
                | None \<Rightarrow> find_default fwn (default_flag s))))"

text \<open>
  The test of \<^verbatim>\<open>mouse_handler\<close> on one focus:
  \<^verbatim>\<open>f.x <= x <= f.x + f.w and f.y <= y <= f.y + f.h\<close>, false for a focus without a place.
\<close>

definition in_rect :: "Focus \<Rightarrow> real \<Rightarrow> real \<Rightarrow> bool" where
  "in_rect f px py =
     (case x f of
        None \<Rightarrow> False
      | Some fx \<Rightarrow> fx \<le> px \<and> px \<le> fx + w f \<and> y f \<le> py \<and> py \<le> y f + h f)"

text \<open>
  Concrete inputs for the examples: a state with nothing focused, grabbed or listed, a
  focus with a rectangle, and a focus without a place.
\<close>

definition idle :: state where
  "idle = \<lparr>focused = None, grab = None, focus_list = [],
           full_focus_name = (\<lambda>g. None), default_flag = (\<lambda>g. False), trace = []\<rparr>"

definition region :: "wid \<Rightarrow> real \<Rightarrow> real \<Rightarrow> real \<Rightarrow> real \<Rightarrow> Focus" where
  "region v rx ry rw rh = \<lparr>widget = v, arg = [], x = Some rx, y = ry, w = rw, h = rh\<rparr>"

definition placeless_region :: "wid \<Rightarrow> Focus" where
  "placeless_region v = \<lparr>widget = v, arg = [], x = None, y = 0, w = 0, h = 0\<rparr>"

section \<open>Properties of the geometry utilities\<close>

lemma points_dist_swap:
  "points_dist x0 y0 x1 y1 xf yf = points_dist x1 y1 x0 y0 xf yf"
  by (simp add: points_dist_def power2_eq_square algebra_simps)

lemma horiz_overlap:
  assumes "(bx0 \<le> ax0 \<and> ax0 \<le> ax1 \<and> ax1 \<le> bx1) \<or>
           (ax0 \<le> bx0 \<and> bx0 \<le> bx1 \<and> bx1 \<le> ax1) \<or>
           (ax0 \<le> bx0 \<and> bx0 \<le> ax1 \<and> ax1 \<le> bx1) \<or>
           (bx0 \<le> ax0 \<and> ax0 \<le> bx1 \<and> bx1 \<le> ax1)"
  shows "horiz_line_dist pen ax0 ay0 ax1 ay1 bx0 by0 bx1 by1 = Inr ((ay0 - by0) ^ 2)"
  unfolding horiz_line_dist_def by (simp only: if_P [OF assms])

lemma horiz_left:
  assumes "\<not> ((bx0 \<le> ax0 \<and> ax0 \<le> ax1 \<and> ax1 \<le> bx1) \<or>
           (ax0 \<le> bx0 \<and> bx0 \<le> bx1 \<and> bx1 \<le> ax1) \<or>
           (ax0 \<le> bx0 \<and> bx0 \<le> ax1 \<and> ax1 \<le> bx1) \<or>
           (bx0 \<le> ax0 \<and> ax0 \<le> bx1 \<and> bx1 \<le> ax1))"
    and "ax0 \<le> ax1 \<and> ax1 \<le> bx0 \<and> bx0 \<le> bx1"
  shows "horiz_line_dist pen ax0 ay0 ax1 ay1 bx0 by0 bx1 by1 =
         Inr (points_dist ax1 ay1 bx0 by0 pen 1)"
  unfolding horiz_line_dist_def by (simp only: if_not_P [OF assms(1)] if_P [OF assms(2)])

lemma horiz_right:
  assumes "\<not> ((bx0 \<le> ax0 \<and> ax0 \<le> ax1 \<and> ax1 \<le> bx1) \<or>
           (ax0 \<le> bx0 \<and> bx0 \<le> bx1 \<and> bx1 \<le> ax1) \<or>
           (ax0 \<le> bx0 \<and> bx0 \<le> ax1 \<and> ax1 \<le> bx1) \<or>
           (bx0 \<le> ax0 \<and> ax0 \<le> bx1 \<and> bx1 \<le> ax1))"
    and "\<not> (ax0 \<le> ax1 \<and> ax1 \<le> bx0 \<and> bx0 \<le> bx1)"
    and "bx0 \<le> bx1 \<and> bx1 \<le> ax0 \<and> ax0 \<le> ax1"
  shows "horiz_line_dist pen ax0 ay0 ax1 ay1 bx0 by0 bx1 by1 =
         Inr (points_dist ax0 ay0 bx1 by1 pen 1)"
  unfolding horiz_line_dist_def
  by (simp only: if_not_P [OF assms(1)] if_not_P [OF assms(2)] if_P [OF assms(3)])

lemma horiz_none:
  assumes "\<not> ((bx0 \<le> ax0 \<and> ax0 \<le> ax1 \<and> ax1 \<le> bx1) \<or>
           (ax0 \<le> bx0 \<and> bx0 \<le> bx1 \<and> bx1 \<le> ax1) \<or>
           (ax0 \<le> bx0 \<and> bx0 \<le> ax1 \<and> ax1 \<le> bx1) \<or>
           (bx0 \<le> ax0 \<and> ax0 \<le> bx1 \<and> bx1 \<le> ax1))"
    and "\<not> (ax0 \<le> ax1 \<and> ax1 \<le> bx0 \<and> bx0 \<le> bx1)"
    and "\<not> (bx0 \<le> bx1 \<and> bx1 \<le> ax0 \<and> ax0 \<le> ax1)"
  shows "horiz_line_dist pen ax0 ay0 ax1 ay1 bx0 by0 bx1 by1 = Inl AssertionError"
  unfolding horiz_line_dist_def
  by (simp only: if_not_P [OF assms(1)] if_not_P [OF assms(2)] if_not_P [OF assms(3)])

lemma horiz_line_dist_sym:
  "horiz_line_dist pen ax0 ay0 ax1 ay1 bx0 by0 bx1 by1 =
   horiz_line_dist pen bx0 by0 bx1 by1 ax0 ay0 ax1 ay1"
proof -
  let ?ov = "(bx0 \<le> ax0 \<and> ax0 \<le> ax1 \<and> ax1 \<le> bx1) \<or>
             (ax0 \<le> bx0 \<and> bx0 \<le> bx1 \<and> bx1 \<le> ax1) \<or>
             (ax0 \<le> bx0 \<and> bx0 \<le> ax1 \<and> ax1 \<le> bx1) \<or>
             (bx0 \<le> ax0 \<and> ax0 \<le> bx1 \<and> bx1 \<le> ax1)"
  let ?ov' = "(ax0 \<le> bx0 \<and> bx0 \<le> bx1 \<and> bx1 \<le> ax1) \<or>
              (bx0 \<le> ax0 \<and> ax0 \<le> ax1 \<and> ax1 \<le> bx1) \<or>
              (bx0 \<le> ax0 \<and> ax0 \<le> bx1 \<and> bx1 \<le> ax1) \<or>
              (ax0 \<le> bx0 \<and> bx0 \<le> ax1 \<and> ax1 \<le> bx1)"
  let ?left = "ax0 \<le> ax1 \<and> ax1 \<le> bx0 \<and> bx0 \<le> bx1"
  let ?right = "bx0 \<le> bx1 \<and> bx1 \<le> ax0 \<and> ax0 \<le> ax1"
  have ov_eq: "?ov' = ?ov" by blast
  have both: "?left \<Longrightarrow> ?right \<Longrightarrow> ?ov"
  proof -
    assume l: ?left and r: ?right
    from l r have "bx0 \<le> ax0" "ax1 \<le> bx1" by linarith+
    with l show ?ov by blast
  qed
  consider (ov) ?ov | (left) "\<not> ?ov" ?left | (right) "\<not> ?ov" "\<not> ?left" ?right
    | (none) "\<not> ?ov" "\<not> ?left" "\<not> ?right"
    by blast
  then show ?thesis
  proof cases
    case ov
    from ov have ov': ?ov' by blast
    show ?thesis
      by (simp only: horiz_overlap [OF ov] horiz_overlap [OF ov'] power2_commute [of ay0 by0])
  next
    case left
    from left(1) have nov': "\<not> ?ov'" by blast
    from left both have nr: "\<not> ?right" by blast
    show ?thesis
      by (simp only: horiz_left [OF left] horiz_right [OF nov' nr left(2)]
            points_dist_swap [of ax1 ay1 bx0 by0])
  next
    case right
    from right(1) have nov': "\<not> ?ov'" by blast
    show ?thesis
      by (simp only: horiz_right [OF right] horiz_left [OF nov' right(3)]
            points_dist_swap [of ax0 ay0 bx1 by1])
  next
    case none
    from none(1) have nov': "\<not> ?ov'" by blast
    show ?thesis
      by (simp only: horiz_none [OF none] horiz_none [OF nov' none(3) none(2)])
  qed
qed

lemma horiz_overlap_value:
  assumes "ax0 \<le> ax1" "bx0 \<le> bx1" "max ax0 bx0 < min ax1 bx1"
  shows "horiz_line_dist pen ax0 ay0 ax1 ay1 bx0 by0 bx1 by1 = Inr ((ay0 - by0) ^ 2)"
proof (rule horiz_overlap)
  from assms(3) have lt: "ax0 < ax1" "ax0 < bx1" "bx0 < ax1" "bx0 < bx1"
    by simp_all
  show "(bx0 \<le> ax0 \<and> ax0 \<le> ax1 \<and> ax1 \<le> bx1) \<or>
         (ax0 \<le> bx0 \<and> bx0 \<le> bx1 \<and> bx1 \<le> ax1) \<or>
         (ax0 \<le> bx0 \<and> bx0 \<le> ax1 \<and> ax1 \<le> bx1) \<or>
         (bx0 \<le> ax0 \<and> ax0 \<le> bx1 \<and> bx1 \<le> ax1)"
  proof (cases "ax0 \<le> bx0")
    case True
    show ?thesis
    proof (cases "ax1 \<le> bx1")
      case True
      with \<open>ax0 \<le> bx0\<close> lt show ?thesis by (simp only: less_imp_le simp_thms)
    next
      case False
      then have "bx1 \<le> ax1" by simp
      with \<open>ax0 \<le> bx0\<close> lt show ?thesis by (simp only: less_imp_le simp_thms)
    qed
  next
    case False
    then have b: "bx0 \<le> ax0" by simp
    show ?thesis
    proof (cases "ax1 \<le> bx1")
      case True
      with b lt show ?thesis by (simp only: less_imp_le simp_thms)
    next
      case False
      then have "bx1 \<le> ax1" by simp
      with b lt show ?thesis by (simp only: less_imp_le simp_thms)
    qed
  qed
qed

lemma horiz_config:
  fixes ax0 ax1 bx0 bx1 :: real
  assumes "ax0 \<le> ax1" "bx0 \<le> bx1"
  shows "(bx0 \<le> ax0 \<and> ax0 \<le> ax1 \<and> ax1 \<le> bx1) \<or>
       (ax0 \<le> bx0 \<and> bx0 \<le> bx1 \<and> bx1 \<le> ax1) \<or>
       (ax0 \<le> bx0 \<and> bx0 \<le> ax1 \<and> ax1 \<le> bx1) \<or>
       (bx0 \<le> ax0 \<and> ax0 \<le> bx1 \<and> bx1 \<le> ax1) \<or>
       (ax0 \<le> ax1 \<and> ax1 \<le> bx0 \<and> bx0 \<le> bx1) \<or>
       (bx0 \<le> bx1 \<and> bx1 \<le> ax0 \<and> ax0 \<le> ax1)"
  using assms by linarith

lemma horiz_returns:
  fixes ax0 ax1 bx0 bx1 :: real
  assumes "ax0 \<le> ax1" "bx0 \<le> bx1"
  shows "\<exists>d. horiz_line_dist pen ax0 ay0 ax1 ay1 bx0 by0 bx1 by1 = Inr d"
proof -
  let ?ov = "(bx0 \<le> ax0 \<and> ax0 \<le> ax1 \<and> ax1 \<le> bx1) \<or>
             (ax0 \<le> bx0 \<and> bx0 \<le> bx1 \<and> bx1 \<le> ax1) \<or>
             (ax0 \<le> bx0 \<and> bx0 \<le> ax1 \<and> ax1 \<le> bx1) \<or>
             (bx0 \<le> ax0 \<and> ax0 \<le> bx1 \<and> bx1 \<le> ax1)"
  let ?left = "ax0 \<le> ax1 \<and> ax1 \<le> bx0 \<and> bx0 \<le> bx1"
  let ?right = "bx0 \<le> bx1 \<and> bx1 \<le> ax0 \<and> ax0 \<le> ax1"
  from horiz_config [OF assms] have "?ov \<or> ?left \<or> ?right" by blast
  then consider (ov) ?ov | (left) "\<not> ?ov" ?left | (right) "\<not> ?ov" "\<not> ?left" ?right
    by blast
  then show ?thesis
  proof cases
    case ov
    from horiz_overlap [OF ov] show ?thesis by blast
  next
    case left
    from horiz_left [OF left] show ?thesis by blast
  next
    case right
    from horiz_right [OF right] show ?thesis by blast
  qed
qed

lemma verti_overlap:
  assumes "(by0 \<le> ay0 \<and> ay0 \<le> ay1 \<and> ay1 \<le> by1) \<or>
           (ay0 \<le> by0 \<and> by0 \<le> by1 \<and> by1 \<le> ay1) \<or>
           (ay0 \<le> by0 \<and> by0 \<le> ay1 \<and> ay1 \<le> by1) \<or>
           (by0 \<le> ay0 \<and> ay0 \<le> by1 \<and> by1 \<le> ay1)"
  shows "verti_line_dist pen ax0 ay0 ax1 ay1 bx0 by0 bx1 by1 = Inr ((ax0 - bx0) ^ 2)"
  unfolding verti_line_dist_def by (simp only: if_P [OF assms])

lemma verti_above:
  assumes "\<not> ((by0 \<le> ay0 \<and> ay0 \<le> ay1 \<and> ay1 \<le> by1) \<or>
           (ay0 \<le> by0 \<and> by0 \<le> by1 \<and> by1 \<le> ay1) \<or>
           (ay0 \<le> by0 \<and> by0 \<le> ay1 \<and> ay1 \<le> by1) \<or>
           (by0 \<le> ay0 \<and> ay0 \<le> by1 \<and> by1 \<le> ay1))"
    and "ay0 \<le> ay1 \<and> ay1 \<le> by0 \<and> by0 \<le> by1"
  shows "verti_line_dist pen ax0 ay0 ax1 ay1 bx0 by0 bx1 by1 =
         Inr (points_dist ax1 ay1 bx0 by0 1 pen)"
  unfolding verti_line_dist_def by (simp only: if_not_P [OF assms(1)] if_P [OF assms(2)])

lemma verti_below:
  assumes "\<not> ((by0 \<le> ay0 \<and> ay0 \<le> ay1 \<and> ay1 \<le> by1) \<or>
           (ay0 \<le> by0 \<and> by0 \<le> by1 \<and> by1 \<le> ay1) \<or>
           (ay0 \<le> by0 \<and> by0 \<le> ay1 \<and> ay1 \<le> by1) \<or>
           (by0 \<le> ay0 \<and> ay0 \<le> by1 \<and> by1 \<le> ay1))"
    and "\<not> (ay0 \<le> ay1 \<and> ay1 \<le> by0 \<and> by0 \<le> by1)"
    and "by0 \<le> by1 \<and> by1 \<le> ay0 \<and> ay0 \<le> ay1"
  shows "verti_line_dist pen ax0 ay0 ax1 ay1 bx0 by0 bx1 by1 =
         Inr (points_dist ax0 ay0 bx1 by1 1 pen)"
  unfolding verti_line_dist_def
  by (simp only: if_not_P [OF assms(1)] if_not_P [OF assms(2)] if_P [OF assms(3)])

lemma verti_returns:
  fixes ay0 ay1 by0 by1 :: real
  assumes "ay0 \<le> ay1" "by0 \<le> by1"
  shows "\<exists>d. verti_line_dist pen ax0 ay0 ax1 ay1 bx0 by0 bx1 by1 = Inr d"
proof -
  let ?ov = "(by0 \<le> ay0 \<and> ay0 \<le> ay1 \<and> ay1 \<le> by1) \<or>
             (ay0 \<le> by0 \<and> by0 \<le> by1 \<and> by1 \<le> ay1) \<or>
             (ay0 \<le> by0 \<and> by0 \<le> ay1 \<and> ay1 \<le> by1) \<or>
             (by0 \<le> ay0 \<and> ay0 \<le> by1 \<and> by1 \<le> ay1)"
  let ?above = "ay0 \<le> ay1 \<and> ay1 \<le> by0 \<and> by0 \<le> by1"
  let ?below = "by0 \<le> by1 \<and> by1 \<le> ay0 \<and> ay0 \<le> ay1"
  from horiz_config [OF assms] have "?ov \<or> ?above \<or> ?below" by blast
  then consider (ov) ?ov | (above) "\<not> ?ov" ?above | (below) "\<not> ?ov" "\<not> ?above" ?below
    by blast
  then show ?thesis
  proof cases
    case ov
    from verti_overlap [OF ov] show ?thesis by blast
  next
    case above
    from verti_above [OF above] show ?thesis by blast
  next
    case below
    from verti_below [OF below] show ?thesis by blast
  qed
qed

text \<open>
  C4. \<^verbatim>\<open>horiz_line_dist\<close> gives the same result when the two segments are swapped,
  for all segments with left end \<open>\<le>\<close> right end; when their x-intervals share more than
  a point the result is the squared difference of the y-coordinates; and the segments
  (0,0)-(10,0) and (5,5)-(15,5) are at distance 25.
\<close>

theorem horiz_line_dist_symmetric_overlap:
  "(ax0 \<le> ax1 \<and> bx0 \<le> bx1 \<longrightarrow>
      horiz_line_dist pen ax0 ay0 ax1 ay1 bx0 by0 bx1 by1 =
      horiz_line_dist pen bx0 by0 bx1 by1 ax0 ay0 ax1 ay1) \<and>
   (ax0 \<le> ax1 \<and> bx0 \<le> bx1 \<and> max ax0 bx0 < min ax1 bx1 \<longrightarrow>
      horiz_line_dist pen ax0 ay0 ax1 ay1 bx0 by0 bx1 by1 = Inr ((ay0 - by0) ^ 2)) \<and>
   horiz_line_dist pen 0 0 10 0 5 5 15 5 = Inr 25"
proof (intro conjI impI)
  show "horiz_line_dist pen ax0 ay0 ax1 ay1 bx0 by0 bx1 by1 =
      horiz_line_dist pen bx0 by0 bx1 by1 ax0 ay0 ax1 ay1"
    by (rule horiz_line_dist_sym)
next
  assume "ax0 \<le> ax1 \<and> bx0 \<le> bx1 \<and> max ax0 bx0 < min ax1 bx1"
  then show "horiz_line_dist pen ax0 ay0 ax1 ay1 bx0 by0 bx1 by1 = Inr ((ay0 - by0) ^ 2)"
    using horiz_overlap_value by blast
next
  have "horiz_line_dist pen 0 0 10 0 5 5 15 5 = Inr ((0 - 5) ^ 2)"
    by (rule horiz_overlap_value) simp_all
  then show "horiz_line_dist pen 0 0 10 0 5 5 15 5 = Inr 25" by simp
qed

theorem horiz_line_dist_symmetric_overlap_witness:
  "horiz_line_dist 3 0 0 10 0 20 7 30 7 = horiz_line_dist 3 20 7 30 7 0 0 10 0 \<and>
   horiz_line_dist 3 0 0 10 0 20 7 30 7 = Inr 949 \<and>
   horiz_line_dist 3 0 1 10 1 5 5 15 5 = Inr 16"
proof -
  have a: "(0::real) \<le> 10 \<and> (20::real) \<le> 30" by simp
  have b: "(0::real) \<le> 10 \<and> (5::real) \<le> 15 \<and> max (0::real) 5 < min 10 15" by simp
  have c: "horiz_line_dist 3 0 0 10 0 20 7 30 7 = Inr 949"
    unfolding horiz_line_dist_def points_dist_def by simp
  from horiz_line_dist_symmetric_overlap [of 0 10 20 30 3 0 0 7 7] a
  have "horiz_line_dist 3 0 0 10 0 20 7 30 7 = horiz_line_dist 3 20 7 30 7 0 0 10 0"
    by blast
  moreover from horiz_line_dist_symmetric_overlap [of 0 10 5 15 3 1 1 5 5] b
  have "horiz_line_dist 3 0 1 10 1 5 5 15 5 = Inr ((1 - 5) ^ 2)"
    by blast
  ultimately show ?thesis using c by simp
qed

text \<open>
  C5. With well-ordered segments (left end \<open>\<le>\<close> right end, resp. top \<open>\<le>\<close> bottom) one
  of the four overlap cases or one of the two disjoint cases holds, so neither function
  reaches its \<^verbatim>\<open>assert False\<close>: both return a value.
\<close>

theorem line_dist_returns:
  "(ax0 \<le> ax1 \<and> bx0 \<le> bx1 \<longrightarrow>
      ((bx0 \<le> ax0 \<and> ax0 \<le> ax1 \<and> ax1 \<le> bx1) \<or>
       (ax0 \<le> bx0 \<and> bx0 \<le> bx1 \<and> bx1 \<le> ax1) \<or>
       (ax0 \<le> bx0 \<and> bx0 \<le> ax1 \<and> ax1 \<le> bx1) \<or>
       (bx0 \<le> ax0 \<and> ax0 \<le> bx1 \<and> bx1 \<le> ax1) \<or>
       (ax0 \<le> ax1 \<and> ax1 \<le> bx0 \<and> bx0 \<le> bx1) \<or>
       (bx0 \<le> bx1 \<and> bx1 \<le> ax0 \<and> ax0 \<le> ax1)) \<and>
      (\<exists>d. horiz_line_dist pen ax0 ay0 ax1 ay1 bx0 by0 bx1 by1 = Inr d)) \<and>
   (cy0 \<le> cy1 \<and> dy0 \<le> dy1 \<longrightarrow>
      ((dy0 \<le> cy0 \<and> cy0 \<le> cy1 \<and> cy1 \<le> dy1) \<or>
       (cy0 \<le> dy0 \<and> dy0 \<le> dy1 \<and> dy1 \<le> cy1) \<or>
       (cy0 \<le> dy0 \<and> dy0 \<le> cy1 \<and> cy1 \<le> dy1) \<or>
       (dy0 \<le> cy0 \<and> cy0 \<le> dy1 \<and> dy1 \<le> cy1) \<or>
       (cy0 \<le> cy1 \<and> cy1 \<le> dy0 \<and> dy0 \<le> dy1) \<or>
       (dy0 \<le> dy1 \<and> dy1 \<le> cy0 \<and> cy0 \<le> cy1)) \<and>
      (\<exists>d. verti_line_dist pen cx0 cy0 cx1 cy1 dx0 dy0 dx1 dy1 = Inr d))"
proof (intro conjI impI)
  assume h: "ax0 \<le> ax1 \<and> bx0 \<le> bx1"
  from h show "(bx0 \<le> ax0 \<and> ax0 \<le> ax1 \<and> ax1 \<le> bx1) \<or>
       (ax0 \<le> bx0 \<and> bx0 \<le> bx1 \<and> bx1 \<le> ax1) \<or>
       (ax0 \<le> bx0 \<and> bx0 \<le> ax1 \<and> ax1 \<le> bx1) \<or>
       (bx0 \<le> ax0 \<and> ax0 \<le> bx1 \<and> bx1 \<le> ax1) \<or>
       (ax0 \<le> ax1 \<and> ax1 \<le> bx0 \<and> bx0 \<le> bx1) \<or>
       (bx0 \<le> bx1 \<and> bx1 \<le> ax0 \<and> ax0 \<le> ax1)"
    using horiz_config [of ax0 ax1 bx0 bx1] by blast
  from h show "\<exists>d. horiz_line_dist pen ax0 ay0 ax1 ay1 bx0 by0 bx1 by1 = Inr d"
    using horiz_returns [of ax0 ax1 bx0 bx1] by blast
next
  assume h: "cy0 \<le> cy1 \<and> dy0 \<le> dy1"
  from h show "(dy0 \<le> cy0 \<and> cy0 \<le> cy1 \<and> cy1 \<le> dy1) \<or>
       (cy0 \<le> dy0 \<and> dy0 \<le> dy1 \<and> dy1 \<le> cy1) \<or>
       (cy0 \<le> dy0 \<and> dy0 \<le> cy1 \<and> cy1 \<le> dy1) \<or>
       (dy0 \<le> cy0 \<and> cy0 \<le> dy1 \<and> dy1 \<le> cy1) \<or>
       (cy0 \<le> cy1 \<and> cy1 \<le> dy0 \<and> dy0 \<le> dy1) \<or>
       (dy0 \<le> dy1 \<and> dy1 \<le> cy0 \<and> cy0 \<le> cy1)"
    using horiz_config [of cy0 cy1 dy0 dy1] by blast
  from h show "\<exists>d. verti_line_dist pen cx0 cy0 cx1 cy1 dx0 dy0 dx1 dy1 = Inr d"
    using verti_returns [of cy0 cy1 dy0 dy1] by blast
qed

theorem line_dist_returns_witness:
  "(\<exists>d. horiz_line_dist 2 0 0 10 0 12 3 20 3 = Inr d) \<and>
   (\<exists>d. verti_line_dist 2 0 0 0 10 3 12 3 20 = Inr d) \<and>
   horiz_line_dist 2 0 0 10 0 12 3 20 3 = Inr 25 \<and>
   verti_line_dist 2 0 0 0 10 3 12 3 20 = Inr 25"
proof -
  have a: "(0::real) \<le> 10 \<and> (12::real) \<le> 20" by simp
  have "\<exists>d. horiz_line_dist 2 0 0 10 0 12 3 20 3 = Inr d"
    using line_dist_returns [of 0 10 12 20 2 0 0 3 3 0 10 12 20 0 0 3 3] a by blast
  moreover have "\<exists>d. verti_line_dist 2 0 0 0 10 3 12 3 20 = Inr d"
    using line_dist_returns [of 0 10 12 20 2 0 0 3 3 0 10 12 20 0 0 3 3] a by blast
  moreover have "horiz_line_dist 2 0 0 10 0 12 3 20 3 = Inr 25"
    unfolding horiz_line_dist_def points_dist_def by simp
  moreover have "verti_line_dist 2 0 0 0 10 3 12 3 20 = Inr 25"
    unfolding verti_line_dist_def points_dist_def by simp
  ultimately show ?thesis by blast
qed

section \<open>Properties of the reconciliation pass\<close>

lemma assign_names_other:
  "g \<notin> fst ` set fwn \<Longrightarrow> assign_names fwn nc ffn g = ffn g"
  by (induction fwn nc ffn rule: assign_names.induct) (auto simp: Let_def)

lemma assign_names_enum:
  "g \<in> fst ` set fwn \<Longrightarrow>
     \<exists>n k. assign_names fwn nc ffn g = Some (n, k) \<and>
           (case nc n of None \<Rightarrow> 0 | Some c \<Rightarrow> c) \<le> k"
proof (induction fwn nc ffn rule: assign_names.induct)
  case (1 namecount ffn)
  then show ?case by simp
next
  case (2 f n fwn namecount ffn)
  let ?serial = "case namecount n of None \<Rightarrow> 0 | Some c \<Rightarrow> c"
  show ?case
  proof (cases "g \<in> fst ` set fwn")
    case True
    from 2(1) [OF refl True] obtain m k where
      mk: "assign_names fwn (namecount(n \<mapsto> ?serial + 1)) (ffn(f \<mapsto> (n, ?serial))) g = Some (m, k)"
      and le: "(case (namecount(n \<mapsto> ?serial + 1)) m of None \<Rightarrow> 0 | Some c \<Rightarrow> c) \<le> k"
      by blast
    from le have "(case namecount m of None \<Rightarrow> 0 | Some c \<Rightarrow> c) \<le> k"
      by (cases "m = n") (auto split: option.splits)
    with mk show ?thesis by (simp add: Let_def)
  next
    case False
    with 2(2) have gf: "g = f" by auto
    with False show ?thesis
      by (simp add: Let_def assign_names_other)
  qed
qed

lemma assign_names_inj:
  "g \<in> fst ` set fwn \<Longrightarrow> g' \<in> fst ` set fwn \<Longrightarrow>
   assign_names fwn nc ffn g = assign_names fwn nc ffn g' \<Longrightarrow> g = g'"
proof (induction fwn nc ffn rule: assign_names.induct)
  case (1 namecount ffn)
  then show ?case by simp
next
  case (2 f n fwn namecount ffn)
  let ?serial = "case namecount n of None \<Rightarrow> 0 | Some c \<Rightarrow> c"
  let ?nc = "namecount(n \<mapsto> ?serial + 1)"
  let ?ffn = "ffn(f \<mapsto> (n, ?serial))"
  have eq: "assign_names fwn ?nc ?ffn g = assign_names fwn ?nc ?ffn g'"
    using 2(4) by (simp add: Let_def)
  have fresh: "assign_names fwn ?nc ?ffn u \<noteq> Some (n, ?serial)" if "u \<in> fst ` set fwn" for u
  proof -
    from assign_names_enum [OF that, of ?nc ?ffn] obtain m k where
      mk: "assign_names fwn ?nc ?ffn u = Some (m, k)"
      and le: "(case ?nc m of None \<Rightarrow> 0 | Some c \<Rightarrow> c) \<le> k"
      by blast
    show ?thesis
    proof (cases "m = n")
      case True
      with le have "?serial + 1 \<le> k" by simp
      with mk True show ?thesis by simp
    next
      case False
      with mk show ?thesis by simp
    qed
  qed
  show ?case
  proof (cases "g \<in> fst ` set fwn")
    case g: True
    show ?thesis
    proof (cases "g' \<in> fst ` set fwn")
      case True
      from 2(1) [OF refl g True eq] show ?thesis .
    next
      case False
      with 2(3) have "g' = f" by auto
      with False have "assign_names fwn ?nc ?ffn g' = Some (n, ?serial)"
        by (simp add: assign_names_other)
      with eq fresh [OF g] show ?thesis by simp
    qed
  next
    case g: False
    with 2(2) have gf: "g = f" by auto
    with g have v: "assign_names fwn ?nc ?ffn g = Some (n, ?serial)"
      by (simp add: assign_names_other)
    show ?thesis
    proof (cases "g' \<in> fst ` set fwn")
      case True
      with eq v fresh [OF True] show ?thesis by simp
    next
      case False
      with 2(3) have "g' = f" by auto
      with gf show ?thesis by simp
    qed
  qed
qed

lemma assign_names_indep:
  "g \<in> fst ` set fwn \<Longrightarrow> assign_names fwn nc ffn g = assign_names fwn nc ffn2 g"
proof (induction fwn nc ffn arbitrary: ffn2 rule: assign_names.induct)
  case (1 namecount ffn)
  then show ?case by simp
next
  case (2 f n fwn namecount ffn)
  show ?case
  proof (cases "g \<in> fst ` set fwn")
    case True
    show ?thesis
      unfolding assign_names.simps Let_def by (rule 2(1) [OF refl True])
  next
    case False
    with 2(2) have "g = f" by auto
    with False show ?thesis by (simp add: Let_def assign_names_other)
  qed
qed

lemma assign_names_idem:
  "assign_names fwn nc (assign_names fwn nc ffn) = assign_names fwn nc ffn"
proof
  fix g
  show "assign_names fwn nc (assign_names fwn nc ffn) g = assign_names fwn nc ffn g"
  proof (cases "g \<in> fst ` set fwn")
    case True
    then show ?thesis by (rule assign_names_indep)
  next
    case False
    then show ?thesis by (simp add: assign_names_other)
  qed
qed

lemma assign_names_first:
  "n \<notin> snd ` set pre \<Longrightarrow> f \<notin> fst ` set post \<Longrightarrow>
   assign_names (pre @ (f, n) # post) nc ffn f =
     Some (n, case nc n of None \<Rightarrow> 0 | Some c \<Rightarrow> c)"
proof (induction pre arbitrary: nc ffn)
  case Nil
  then show ?case by (simp add: Let_def assign_names_other)
next
  case (Cons p pre)
  obtain g m where p: "p = (g, m)" by (cases p)
  from Cons(2) p have mn: "m \<noteq> n" and rest: "n \<notin> snd ` set pre" by auto
  from Cons(1) [OF rest Cons(3)] mn show ?case
    by (simp add: p Let_def)
qed

lemma find_same_name_Some:
  "find_same_name fwn ffn k = Some f \<Longrightarrow> f \<in> fst ` set fwn \<and> ffn f = Some k"
  by (induction fwn ffn k rule: find_same_name.induct) (auto split: if_splits)

lemma find_same_name_None:
  "find_same_name fwn ffn k = None \<longleftrightarrow> (\<forall>g\<in>fst ` set fwn. ffn g \<noteq> Some k)"
  by (induction fwn ffn k rule: find_same_name.induct) auto

lemma find_same_name_unique:
  assumes "f \<in> fst ` set fwn" "ffn f = Some k"
    and "\<And>g. g \<in> fst ` set fwn \<Longrightarrow> ffn g = Some k \<Longrightarrow> g = f"
  shows "find_same_name fwn ffn k = Some f"
proof (cases "find_same_name fwn ffn k")
  case None
  then have "\<forall>g\<in>fst ` set fwn. ffn g \<noteq> Some k" by (simp only: find_same_name_None)
  with assms(1,2) show ?thesis by blast
next
  case (Some g)
  from find_same_name_Some [OF Some] assms(3) have "g = f" by blast
  with Some show ?thesis by simp
qed

lemma find_default_None:
  "find_default fwn d = None \<longleftrightarrow> (\<forall>g\<in>fst ` set fwn. \<not> d g)"
  by (induction fwn d rule: find_default.induct) auto

lemma find_default_Some:
  "find_default fwn d = Some f \<Longrightarrow> f \<in> fst ` set fwn \<and> d f"
  by (induction fwn d rule: find_default.induct) (auto split: if_splits)

lemma find_default_first:
  "\<forall>g\<in>fst ` set pre. \<not> d g \<Longrightarrow> d f \<Longrightarrow> find_default (pre @ (f, n) # post) d = Some f"
  by (induction pre) auto

lemma call_frame:
  "focused (call e s) = focused s" "grab (call e s) = grab s"
  "focus_list (call e s) = focus_list s" "full_focus_name (call e s) = full_focus_name s"
  "default_flag (call e s) = default_flag s"
  by (simp_all add: call_def)

lemma unfocus_others_frame:
  "focused (unfocus_others fwn c s) = focused s \<and>
   grab (unfocus_others fwn c s) = grab s \<and>
   focus_list (unfocus_others fwn c s) = focus_list s \<and>
   full_focus_name (unfocus_others fwn c s) = full_focus_name s \<and>
   default_flag (unfocus_others fwn c s) = default_flag s"
  by (induction fwn c s rule: unfocus_others.induct) (simp_all add: call_frame)

lemma before_interact_Inr:
  assumes "before_interact fwn s = Inr s'"
  shows "focused s' = resolved_focus fwn s"
    and "grab s' = None"
    and "full_focus_name s' = assign_names fwn Map.empty (full_focus_name s)"
    and "default_flag s' = default_flag s"
    and "focus_list s' = focus_list s"
  using assms
  by (auto simp: before_interact_def resolved_focus_def Let_def get_focused_def set_focused_def
        unfocus_others_frame call_frame
      split: option.splits sum.splits prod.splits if_splits)

lemma before_interact_returns:
  assumes "focused s = None \<or>
           (\<exists>c k. focused s = Some c \<and> assign_names fwn Map.empty (full_focus_name s) c = Some k)"
  shows "\<exists>s'. before_interact fwn s = Inr s'"
  using assms
  by (auto simp: before_interact_def Let_def get_focused_def set_focused_def
      split: option.splits sum.splits prod.splits if_splits)

lemma before_interact_Inr_named:
  assumes "before_interact fwn s = Inr s'" "focused s = Some c"
  shows "\<exists>k. assign_names fwn Map.empty (full_focus_name s) c = Some k"
  using assms
  by (auto simp: before_interact_def Let_def get_focused_def
      split: option.splits sum.splits prod.splits if_splits)

lemma resolved_enumerated:
  assumes "resolved_focus fwn s = Some f"
  shows "f \<in> fst ` set fwn"
  using assms
  by (auto simp: resolved_focus_def split: option.splits
      dest: find_same_name_Some find_default_Some)

lemma find_same_name_self:
  assumes "f \<in> fst ` set fwn" "assign_names fwn nc ffn f = Some k"
  shows "find_same_name fwn (assign_names fwn nc ffn) k = Some f"
proof (rule find_same_name_unique [where ffn = "assign_names fwn nc ffn", OF assms])
  fix g
  assume g: "g \<in> fst ` set fwn" "assign_names fwn nc ffn g = Some k"
  from g(2) assms(2) have "assign_names fwn nc ffn g = assign_names fwn nc ffn f" by simp
  from assign_names_inj [OF g(1) assms(1) this] show "g = f" .
qed

lemma before_interact_grab:
  "grab (state_after (before_interact fwn s)) = None"
proof -
  have u: "\<And>c t. grab (unfocus_others fwn c t) = grab t"
  proof -
    fix c t show "grab (unfocus_others fwn c t) = grab t"
      by (induction fwn c t rule: unfocus_others.induct) (simp_all add: call_def)
  qed
  show ?thesis
    by (auto simp: before_interact_def state_after_def Let_def get_focused_def set_focused_def
          call_def u split: option.splits sum.splits prod.splits if_splits)
qed

text \<open>
  C2, as the code has it. The match is on the whole \<^verbatim>\<open>full_focus_name\<close>, name and
  serial number, and the pass reads the focused widget's attribute after it has renamed
  the enumerated widgets. So let the name \<open>n\<close> occur exactly once in the enumeration, at
  the widget \<open>f\<close>, which is not enumerated again after that place; and let the focused
  widget either be \<open>f\<close> itself, or be a widget outside the enumeration whose
  \<^verbatim>\<open>full_focus_name\<close> is \<open>(n, 0)\<close>. Then the pass returns and \<open>f\<close> is focused after it,
  whatever the other enumerated widgets and their order are.
\<close>

theorem before_interact_keeps_unique_name:
  assumes "focused s = Some c"
    and "fwn = pre @ (f, n) # post"
    and "n \<notin> snd ` set pre" and "n \<notin> snd ` set post"
    and "f \<notin> fst ` set post"
    and "c = f \<or> (c \<notin> fst ` set fwn \<and> full_focus_name s c = Some (n, 0))"
  shows "\<exists>s'. before_interact fwn s = Inr s' \<and> focused s' = Some f"
proof -
  let ?ffn = "assign_names fwn Map.empty (full_focus_name s)"
  have f_in: "f \<in> fst ` set fwn" using assms(2) by force
  have f_key: "?ffn f = Some (n, 0)"
    using assign_names_first [OF assms(3) assms(5), where nc = Map.empty and ffn = "full_focus_name s"]
    by (simp add: assms(2))
  have c_key: "?ffn c = Some (n, 0)"
    using assms(6) f_key by (auto simp: assign_names_other)
  have found: "find_same_name fwn ?ffn (n, 0) = Some f"
    by (rule find_same_name_self [OF f_in f_key])
  from c_key assms(1) obtain s' where s': "before_interact fwn s = Inr s'"
    using before_interact_returns [of s fwn] by blast
  have "resolved_focus fwn s = Some f"
    by (simp add: resolved_focus_def assms(1) c_key found)
  with before_interact_Inr(1) [OF s'] s' show ?thesis by simp
qed

theorem before_interact_keeps_unique_name_witness:
  "\<exists>s'. before_interact [(1, ''x''), (2, ''ok''), (3, ''x'')]
          (idle\<lparr>focused := Some 7, full_focus_name := (\<lambda>g. None)(7 \<mapsto> (''ok'', 0))\<rparr>) = Inr s' \<and>
        focused s' = Some 2"
  using before_interact_keeps_unique_name
    [of "idle\<lparr>focused := Some 7, full_focus_name := (\<lambda>g. None)(7 \<mapsto> (''ok'', 0))\<rparr>" 7
        "[(1, ''x''), (2, ''ok''), (3, ''x'')]" "[(1, ''x'')]" 2 "''ok''" "[(3, ''x'')]"]
  by (simp add: idle_def)

text \<open>
  C2 as stated fails when the serial number of the focused widget is not 0: widget 7 was
  the second widget named \<open>a\<close> of the previous enumeration, the new enumeration has the
  name \<open>a\<close> exactly once, at widget 1, and after the pass nothing is focused.
\<close>

theorem before_interact_stale_serial_counterexample:
  "count_list (map snd [(1::nat, ''a'')]) ''a'' = 1 \<and>
   \<not> isl (before_interact [(1, ''a'')]
          (idle\<lparr>focused := Some 7, full_focus_name := (\<lambda>g. None)(7 \<mapsto> (''a'', 1))\<rparr>)) \<and>
   focused (state_after (before_interact [(1, ''a'')]
          (idle\<lparr>focused := Some 7, full_focus_name := (\<lambda>g. None)(7 \<mapsto> (''a'', 1))\<rparr>))) = None"
  by (simp add: before_interact_def state_after_def idle_def Let_def get_focused_def
        set_focused_def call_def)

text \<open>
  C3. When nothing was focused, or no enumerated widget has the \<^verbatim>\<open>full_focus_name\<close> of
  the focused widget, the pass returns, and the focus after it is the first enumerated
  widget whose \<^verbatim>\<open>default\<close> flag is set; when no enumerated widget has the flag, the
  focus is none.
\<close>

theorem before_interact_default:
  assumes "focused s = None \<or>
     (\<exists>c k. focused s = Some c \<and>
        assign_names fwn Map.empty (full_focus_name s) c = Some k \<and>
        (\<forall>g\<in>fst ` set fwn. assign_names fwn Map.empty (full_focus_name s) g \<noteq> Some k))"
  shows "\<exists>s'. before_interact fwn s = Inr s' \<and>
     ((\<forall>g\<in>fst ` set fwn. \<not> default_flag s g) \<longrightarrow> focused s' = None) \<and>
     (\<forall>pre f n post.
        fwn = pre @ (f, n) # post \<and> (\<forall>g\<in>fst ` set pre. \<not> default_flag s g) \<and>
        default_flag s f \<longrightarrow> focused s' = Some f)"
proof -
  let ?ffn = "assign_names fwn Map.empty (full_focus_name s)"
  from assms obtain s' where s': "before_interact fwn s = Inr s'"
    using before_interact_returns [of s fwn] by blast
  have res: "resolved_focus fwn s = find_default fwn (default_flag s)"
  proof (cases "focused s")
    case None
    then show ?thesis by (simp add: resolved_focus_def)
  next
    case (Some c)
    with assms obtain k where k: "?ffn c = Some k"
      and no: "\<forall>g\<in>fst ` set fwn. ?ffn g \<noteq> Some k"
      by auto
    from no have "find_same_name fwn ?ffn k = None"
      by (simp only: find_same_name_None)
    with Some k show ?thesis by (simp add: resolved_focus_def)
  qed
  have foc: "focused s' = find_default fwn (default_flag s)"
    using before_interact_Inr(1) [OF s'] res by simp
  have a: "(\<forall>g\<in>fst ` set fwn. \<not> default_flag s g) \<longrightarrow> focused s' = None"
    using foc by (simp add: find_default_None)
  have b: "\<forall>pre f n post.
        fwn = pre @ (f, n) # post \<and> (\<forall>g\<in>fst ` set pre. \<not> default_flag s g) \<and>
        default_flag s f \<longrightarrow> focused s' = Some f"
    using foc by (auto simp: find_default_first)
  from s' a b show ?thesis by blast
qed

theorem before_interact_default_witness:
  "(\<exists>s'. before_interact [(1, ''a''), (2, ''b''), (3, ''c'')]
          (idle\<lparr>focused := Some 7, full_focus_name := (\<lambda>g. None)(7 \<mapsto> (''gone'', 0)),
                 default_flag := (\<lambda>g. g = 2 \<or> g = 3)\<rparr>) = Inr s' \<and>
         focused s' = Some 2) \<and>
   (\<exists>s'. before_interact [(1, ''a''), (2, ''b''), (3, ''c'')] idle = Inr s' \<and>
         focused s' = None)"
proof
  let ?s = "idle\<lparr>focused := Some 7, full_focus_name := (\<lambda>g. None)(7 \<mapsto> (''gone'', 0)),
                 default_flag := (\<lambda>g. g = 2 \<or> g = 3)\<rparr>"
  let ?fwn = "[(1::nat, ''a''), (2, ''b''), (3, ''c'')]"
  have pre: "focused ?s = None \<or>
     (\<exists>c k. focused ?s = Some c \<and>
        assign_names ?fwn Map.empty (full_focus_name ?s) c = Some k \<and>
        (\<forall>g\<in>fst ` set ?fwn. assign_names ?fwn Map.empty (full_focus_name ?s) g \<noteq> Some k))"
    by (simp add: idle_def)
  from before_interact_default [OF pre] obtain s' where
    s': "before_interact ?fwn ?s = Inr s'"
    and first: "\<forall>pre f n post.
        ?fwn = pre @ (f, n) # post \<and> (\<forall>g\<in>fst ` set pre. \<not> default_flag ?s g) \<and>
        default_flag ?s f \<longrightarrow> focused s' = Some f"
    by blast
  from first [rule_format, of "[(1, ''a'')]" 2 "''b''" "[(3, ''c'')]"]
  have "focused s' = Some 2" by (simp add: idle_def)
  with s' show "\<exists>s'. before_interact ?fwn ?s = Inr s' \<and> focused s' = Some 2" by blast
next
  let ?fwn = "[(1::nat, ''a''), (2, ''b''), (3, ''c'')]"
  have pre: "focused idle = None \<or>
     (\<exists>c k. focused idle = Some c \<and>
        assign_names ?fwn Map.empty (full_focus_name idle) c = Some k \<and>
        (\<forall>g\<in>fst ` set ?fwn. assign_names ?fwn Map.empty (full_focus_name idle) g \<noteq> Some k))"
    by (simp add: idle_def)
  from before_interact_default [OF pre] obtain s' where
    s': "before_interact ?fwn idle = Inr s'"
    and none: "(\<forall>g\<in>fst ` set ?fwn. \<not> default_flag idle g) \<longrightarrow> focused s' = None"
    by blast
  from none have "focused s' = None" by (simp add: idle_def)
  with s' show "\<exists>s'. before_interact ?fwn idle = Inr s' \<and> focused s' = None" by blast
qed

text \<open>
  C7. A pass that returned, followed by a second pass over the same enumeration (the
  same widgets with the same names in the same order, and no change of focus in
  between): the second pass returns as well and resolves the same focused widget.
\<close>

theorem before_interact_idempotent:
  assumes "before_interact fwn s = Inr s1"
  shows "\<exists>s2. before_interact fwn s1 = Inr s2 \<and> focused s2 = focused s1"
proof -
  let ?ffn = "assign_names fwn Map.empty (full_focus_name s)"
  note r = before_interact_Inr [OF assms]
  have ffn1: "assign_names fwn Map.empty (full_focus_name s1) = ?ffn"
    by (simp add: r(3) assign_names_idem)
  show ?thesis
  proof (cases "focused s1")
    case None
    then obtain s2 where s2: "before_interact fwn s1 = Inr s2"
      using before_interact_returns [of s1 fwn] by blast
    from None r(1) have res: "resolved_focus fwn s = None" by simp
    have "find_default fwn (default_flag s) = None"
    proof (cases "focused s")
      case None
      with res show ?thesis by (simp add: resolved_focus_def)
    next
      case (Some c)
      from before_interact_Inr_named [OF assms Some] obtain k where k: "?ffn c = Some k"
        by blast
      with res Some show ?thesis
        by (simp add: resolved_focus_def split: option.splits)
    qed
    then have "resolved_focus fwn s1 = None"
      by (simp add: resolved_focus_def None r(4))
    with before_interact_Inr(1) [OF s2] None s2 show ?thesis by simp
  next
    case (Some f)
    with r(1) have "resolved_focus fwn s = Some f" by simp
    then have f_in: "f \<in> fst ` set fwn" by (rule resolved_enumerated)
    from assign_names_enum [OF f_in, of Map.empty "full_focus_name s"]
    obtain k where k: "?ffn f = Some k" by auto
    have found: "find_same_name fwn ?ffn k = Some f"
      by (rule find_same_name_self [OF f_in k])
    from Some k ffn1 obtain s2 where s2: "before_interact fwn s1 = Inr s2"
      using before_interact_returns [of s1 fwn] by auto
    have "resolved_focus fwn s1 = Some f"
      by (simp add: resolved_focus_def Some ffn1 k found)
    with before_interact_Inr(1) [OF s2] Some s2 show ?thesis by simp
  qed
qed

theorem before_interact_idempotent_witness:
  "\<exists>s1 s2. before_interact [(1, ''a''), (2, ''b''), (3, ''b'')]
             (idle\<lparr>focused := Some 7, full_focus_name := (\<lambda>g. None)(7 \<mapsto> (''b'', 1))\<rparr>) = Inr s1 \<and>
           before_interact [(1, ''a''), (2, ''b''), (3, ''b'')] s1 = Inr s2 \<and>
           focused s1 = Some 3 \<and> focused s2 = Some 3"
proof -
  let ?s = "idle\<lparr>focused := Some 7, full_focus_name := (\<lambda>g. None)(7 \<mapsto> (''b'', 1))\<rparr>"
  let ?fwn = "[(1::nat, ''a''), (2, ''b''), (3, ''b'')]"
  have "\<exists>s1. before_interact ?fwn ?s = Inr s1"
    by (rule before_interact_returns) (simp add: idle_def)
  then obtain s1 where s1: "before_interact ?fwn ?s = Inr s1" by blast
  from before_interact_Inr(1) [OF s1] have f1: "focused s1 = Some 3"
    by (simp add: resolved_focus_def idle_def)
  from before_interact_idempotent [OF s1] obtain s2 where
    "before_interact ?fwn s1 = Inr s2" "focused s2 = focused s1"
    by blast
  with s1 f1 show ?thesis by auto
qed

section \<open>Properties of the focus changes\<close>

text \<open>
  C9. \<^verbatim>\<open>change_focus\<close> without a grab: when the target widget is the focused one, the
  state is unchanged (no callback). Otherwise the focused widget, if any, gets
  \<^verbatim>\<open>unfocus\<close>, then the target, if any, gets \<^verbatim>\<open>focus\<close>, and both callbacks still
  see the old focus in the registry: the new focus is written last.
\<close>

theorem change_focus_no_grab:
  assumes "grab s = None"
  shows "(map_option widget newfocus = focused s \<longrightarrow> change_focus newfocus s = s) \<and>
     (map_option widget newfocus \<noteq> focused s \<longrightarrow>
        change_focus newfocus s =
          s\<lparr>trace := trace s @
                 (case focused s of None \<Rightarrow> [] | Some c \<Rightarrow> [(Unfocus c, focused s)]) @
                 (case newfocus of None \<Rightarrow> []
                  | Some nf \<Rightarrow> [(FocusCall (widget nf) False, focused s)]),
            focused := map_option widget newfocus\<rparr>)"
  using assms
  by (cases newfocus; cases "focused s")
     (auto simp: change_focus_def get_focused_def set_focused_def call_def Let_def)

theorem change_focus_no_grab_witness:
  "change_focus (Some (region 2 0 0 10 10)) (idle\<lparr>focused := Some 1\<rparr>) =
     idle\<lparr>focused := Some 2,
          trace := [(Unfocus 1, Some 1), (FocusCall 2 False, Some 1)]\<rparr> \<and>
   change_focus (Some (region 1 0 0 10 10)) (idle\<lparr>focused := Some 1\<rparr>) =
     idle\<lparr>focused := Some 1\<rparr>"
proof -
  let ?s = "idle\<lparr>focused := Some 1\<rparr>"
  have g: "grab ?s = None" by (simp add: idle_def)
  from change_focus_no_grab [OF g, of "Some (region 2 0 0 10 10)"]
  have a: "change_focus (Some (region 2 0 0 10 10)) ?s =
     idle\<lparr>focused := Some 2,
          trace := [(Unfocus 1, Some 1), (FocusCall 2 False, Some 1)]\<rparr>"
    by (simp add: region_def idle_def)
  from change_focus_no_grab [OF g, of "Some (region 1 0 0 10 10)"]
  have b: "change_focus (Some (region 1 0 0 10 10)) ?s = ?s"
    by (simp add: region_def idle_def)
  from a b show ?thesis by simp
qed

text \<open>
  C6. While a grab is set, \<^verbatim>\<open>change_focus\<close> returns the state as it is, for every
  argument: the focused widget and the trace of callbacks are unchanged. Every pass of
  \<^verbatim>\<open>before_interact\<close> leaves the grab cleared, whether it returns or raises, and in the
  state it leaves \<^verbatim>\<open>change_focus\<close> moves the focus to the widget of its argument
  again.
\<close>

theorem grab_suppresses_change_focus:
  "(grab s \<noteq> None \<longrightarrow> change_focus newfocus s = s) \<and>
   change_focus newfocus (set_grab (Some g) s) = set_grab (Some g) s \<and>
   grab (state_after (before_interact fwn s)) = None \<and>
   (map_option widget newfocus \<noteq> focused (state_after (before_interact fwn s)) \<longrightarrow>
      focused (change_focus newfocus (state_after (before_interact fwn s))) =
        map_option widget newfocus)"
proof (intro conjI impI)
  assume "grab s \<noteq> None"
  then show "change_focus newfocus s = s" by (simp add: change_focus_def)
next
  show "change_focus newfocus (set_grab (Some g) s) = set_grab (Some g) s"
    by (simp add: change_focus_def set_grab_def)
next
  show "grab (state_after (before_interact fwn s)) = None"
    by (rule before_interact_grab)
next
  assume "map_option widget newfocus \<noteq> focused (state_after (before_interact fwn s))"
  then show "focused (change_focus newfocus (state_after (before_interact fwn s))) =
        map_option widget newfocus"
    using before_interact_grab [of fwn s]
    by (cases newfocus; cases "focused (state_after (before_interact fwn s))")
       (auto simp: change_focus_def get_focused_def set_focused_def call_def Let_def)
qed

theorem grab_suppresses_change_focus_witness:
  "change_focus (Some (region 1 0 0 10 10)) (idle\<lparr>grab := Some 9\<rparr>) = idle\<lparr>grab := Some 9\<rparr> \<and>
   focused (change_focus (Some (region 1 0 0 10 10))
      (state_after (before_interact [] (idle\<lparr>grab := Some 9\<rparr>)))) = Some 1"
proof -
  let ?s = "idle\<lparr>grab := Some 9\<rparr>"
  note t = grab_suppresses_change_focus [of ?s "Some (region 1 0 0 10 10)" 9 "[]"]
  have g: "grab ?s \<noteq> None" by simp
  have n: "map_option widget (Some (region 1 0 0 10 10)) \<noteq>
           focused (state_after (before_interact [] ?s))"
    by (simp add: before_interact_def state_after_def idle_def Let_def get_focused_def
          set_focused_def region_def)
  from t g have "change_focus (Some (region 1 0 0 10 10)) ?s = ?s" by blast
  moreover from t n have "focused (change_focus (Some (region 1 0 0 10 10))
      (state_after (before_interact [] ?s))) = map_option widget (Some (region 1 0 0 10 10))"
    by blast
  ultimately show ?thesis by (simp add: region_def)
qed

lemma mouse_scan_hit:
  "in_rect f px py \<Longrightarrow> \<forall>g\<in>set pre. \<not> in_rect g px py \<Longrightarrow>
   mouse_scan (pre @ f # post) px py dflt = Some f"
  by (induction pre arbitrary: dflt) (auto simp: in_rect_def split: option.splits)

lemma mouse_scan_miss:
  "\<forall>g\<in>set fl. \<not> in_rect g px py \<Longrightarrow>
   mouse_scan fl px py dflt =
     (case filter (\<lambda>g. x g = None) fl of [] \<Rightarrow> dflt | p # ps \<Rightarrow> Some (last (p # ps)))"
proof (induction fl arbitrary: dflt)
  case Nil
  then show ?case by simp
next
  case (Cons f fl)
  then have ih: "\<And>d. mouse_scan fl px py d =
     (case filter (\<lambda>g. x g = None) fl of [] \<Rightarrow> d | p # ps \<Rightarrow> Some (last (p # ps)))"
    by simp
  from Cons(2) have miss: "\<not> in_rect f px py" by simp
  show ?case
  proof (cases "x f")
    case None
    then show ?thesis by (simp add: ih split: list.splits)
  next
    case (Some fx)
    with miss have "\<not> (fx \<le> px \<and> px \<le> fx + w f \<and> y f \<le> py \<and> py \<le> y f + h f)"
      by (simp add: in_rect_def)
    then have eq: "mouse_scan (f # fl) px py dflt = mouse_scan fl px py dflt"
      by (simp only: mouse_scan.simps Some option.case if_not_P if_False)
    show ?thesis unfolding eq using Some by (simp add: ih)
  qed
qed

text \<open>
  C8. \<^verbatim>\<open>mouse_handler\<close> passes to \<^verbatim>\<open>change_focus\<close> the first focus of the list whose
  rectangle contains the pointer; when no rectangle contains it, the last focus
  without a place of the list; when there is none either, \<^verbatim>\<open>None\<close>. With the list
  [(0,0,10,10) of widget 1, a focus without a place of widget 2] a pointer at (5,5)
  focuses widget 1 and a pointer at (100,100) focuses widget 2.
\<close>

theorem mouse_handler_hit_test:
  "mouse_handler (px, py) s = change_focus (mouse_scan (focus_list s) px py None) s \<and>
   (\<forall>pre f post. focus_list s = pre @ f # post \<and> in_rect f px py \<and>
       (\<forall>g\<in>set pre. \<not> in_rect g px py) \<longrightarrow>
       mouse_scan (focus_list s) px py None = Some f) \<and>
   ((\<forall>g\<in>set (focus_list s). \<not> in_rect g px py) \<longrightarrow>
       mouse_scan (focus_list s) px py None =
         (case filter (\<lambda>g. x g = None) (focus_list s) of
            [] \<Rightarrow> None
          | p # ps \<Rightarrow> Some (last (p # ps)))) \<and>
   focused (mouse_handler (5, 5)
      (idle\<lparr>focus_list := [region 1 0 0 10 10, placeless_region 2]\<rparr>)) = Some 1 \<and>
   focused (mouse_handler (100, 100)
      (idle\<lparr>focus_list := [region 1 0 0 10 10, placeless_region 2]\<rparr>)) = Some 2"
proof (intro conjI allI impI)
  show "mouse_handler (px, py) s = change_focus (mouse_scan (focus_list s) px py None) s"
    by (simp add: mouse_handler_def)
next
  fix pre f post
  assume "focus_list s = pre @ f # post \<and> in_rect f px py \<and> (\<forall>g\<in>set pre. \<not> in_rect g px py)"
  then show "mouse_scan (focus_list s) px py None = Some f"
    by (simp add: mouse_scan_hit)
next
  assume "\<forall>g\<in>set (focus_list s). \<not> in_rect g px py"
  then show "mouse_scan (focus_list s) px py None =
         (case filter (\<lambda>g. x g = None) (focus_list s) of
            [] \<Rightarrow> None
          | p # ps \<Rightarrow> Some (last (p # ps)))"
    by (rule mouse_scan_miss)
next
  show "focused (mouse_handler (5, 5)
      (idle\<lparr>focus_list := [region 1 0 0 10 10, placeless_region 2]\<rparr>)) = Some 1"
    by (simp add: mouse_handler_def change_focus_def idle_def region_def placeless_region_def
          get_focused_def set_focused_def call_def)
next
  show "focused (mouse_handler (100, 100)
      (idle\<lparr>focus_list := [region 1 0 0 10 10, placeless_region 2]\<rparr>)) = Some 2"
    by (simp add: mouse_handler_def change_focus_def idle_def region_def placeless_region_def
          get_focused_def set_focused_def call_def)
qed

theorem mouse_handler_hit_test_witness:
  "mouse_scan [region 1 0 0 10 10, region 3 5 5 10 10, placeless_region 2] 7 7 None =
     Some (region 1 0 0 10 10) \<and>
   mouse_scan [placeless_region 4, region 1 0 0 10 10, placeless_region 2] 50 50 None =
     Some (placeless_region 2)"
proof -
  let ?s = "idle\<lparr>focus_list := [region 1 0 0 10 10, region 3 5 5 10 10, placeless_region 2]\<rparr>"
  let ?t = "idle\<lparr>focus_list := [placeless_region 4, region 1 0 0 10 10, placeless_region 2]\<rparr>"
  have hit: "focus_list ?s = [] @ region 1 0 0 10 10 # [region 3 5 5 10 10, placeless_region 2] \<and>
     in_rect (region 1 0 0 10 10) 7 7 \<and> (\<forall>g\<in>set []. \<not> in_rect g 7 7)"
    by (simp add: in_rect_def region_def)
  have miss: "\<forall>g\<in>set (focus_list ?t). \<not> in_rect g 50 50"
    by (simp add: in_rect_def region_def placeless_region_def)
  from mouse_handler_hit_test [of 7 7 ?s] hit
  have "mouse_scan (focus_list ?s) 7 7 None = Some (region 1 0 0 10 10)" by blast
  moreover from mouse_handler_hit_test [of 50 50 ?t] miss
  have "mouse_scan (focus_list ?t) 50 50 None =
         (case filter (\<lambda>g. x g = None) (focus_list ?t) of
            [] \<Rightarrow> None
          | p # ps \<Rightarrow> Some (last (p # ps)))" by blast
  ultimately show ?thesis by (simp add: region_def placeless_region_def)
qed

text \<open>
  C1 at a concrete input. Of two foci at x = 0 and x = 5, both with a place, the call
  \<^verbatim>\<open>focus_extreme(-1, 0, 0, 0)\<close> scores the first 0 and the second -5; the loop skips
  the first, whose \<open>x\<close> is the number zero, and the second is selected and focused.
\<close>

theorem focus_extreme_skips_zero_x:
  "extreme_scan [region 1 0 0 10 10, region 2 5 0 10 10] (- 1) 0 0 0 None (- (65536 ^ 2)) =
     Some (region 2 5 0 10 10) \<and>
   focused (focus_extreme (- 1) 0 0 0
      (idle\<lparr>focus_list := [region 1 0 0 10 10, region 2 5 0 10 10]\<rparr>)) = Some 2"
  by (simp add: focus_extreme_def change_focus_def idle_def region_def
        get_focused_def set_focused_def call_def)

section \<open>Properties of the directional search\<close>

lemma nearest_scan_selected_index:
  "nearest_scan cond dist_of from_i i fl pl nf d0 = Inr (pl', nf', d') \<Longrightarrow>
     (nf' = nf \<and> d' = d0) \<or>
     (\<exists>j<length fl. i + j \<noteq> from_i \<and> nf' = Some (fl ! j) \<and>
        (\<exists>fx. x (fl ! j) = Some fx \<and> cond (fl ! j) \<and> dist_of fx (fl ! j) = Inr d' \<and> d' < d0))"
proof (induction fl arbitrary: i pl nf d0)
  case Nil
  then show ?case by simp
next
  case (Cons f fl)
  let ?S = "\<lambda>j db. i + j \<noteq> from_i \<and> nf' = Some ((f # fl) ! j) \<and>
        (\<exists>fx. x ((f # fl) ! j) = Some fx \<and> cond ((f # fl) ! j) \<and>
              dist_of fx ((f # fl) ! j) = Inr d' \<and> d' < db)"
  have later: "\<exists>j<length (f # fl). ?S j d0"
    if "\<exists>j<length fl. Suc i + j \<noteq> from_i \<and> nf' = Some (fl ! j) \<and>
        (\<exists>fx. x (fl ! j) = Some fx \<and> cond (fl ! j) \<and> dist_of fx (fl ! j) = Inr d' \<and> d' < d1)"
      and "d1 \<le> d0" for d1
  proof -
    from that obtain j where j: "j < length fl" "Suc i + j \<noteq> from_i" "nf' = Some (fl ! j)"
      "\<exists>fx. x (fl ! j) = Some fx \<and> cond (fl ! j) \<and> dist_of fx (fl ! j) = Inr d' \<and> d' < d1"
      by blast
    from j that(2) have "Suc j < length (f # fl) \<and> ?S (Suc j) d0" by auto
    then show ?thesis by blast
  qed
  show ?case
  proof (cases "i = from_i")
    case True
    with Cons.prems have "nearest_scan cond dist_of from_i (Suc i) fl pl nf d0 = Inr (pl', nf', d')"
      by simp
    from Cons.IH [OF this] later [of d0] show ?thesis by blast
  next
    case ni: False
    show ?thesis
    proof (cases "x f")
      case None
      with Cons.prems ni
      have "nearest_scan cond dist_of from_i (Suc i) fl (Some f) nf d0 = Inr (pl', nf', d')"
        by simp
      from Cons.IH [OF this] later [of d0] show ?thesis by blast
    next
      case (Some fx)
      show ?thesis
      proof (cases "cond f")
        case False
        with Cons.prems ni Some
        have "nearest_scan cond dist_of from_i (Suc i) fl pl nf d0 = Inr (pl', nf', d')"
          by simp
        from Cons.IH [OF this] later [of d0] show ?thesis by blast
      next
        case True
        show ?thesis
        proof (cases "dist_of fx f")
          case (Inl e)
          with Cons.prems ni Some True show ?thesis by simp
        next
          case (Inr d)
          show ?thesis
          proof (cases "d < d0")
            case lt: True
            with Cons.prems ni Some True Inr
            have "nearest_scan cond dist_of from_i (Suc i) fl pl (Some f) d = Inr (pl', nf', d')"
              by simp
            from Cons.IH [OF this]
            have "(nf' = Some f \<and> d' = d) \<or>
               (\<exists>j<length fl. Suc i + j \<noteq> from_i \<and> nf' = Some (fl ! j) \<and>
                 (\<exists>fx. x (fl ! j) = Some fx \<and> cond (fl ! j) \<and> dist_of fx (fl ! j) = Inr d' \<and> d' < d))" .
            then show ?thesis
            proof
              assume "nf' = Some f \<and> d' = d"
              with ni Some True Inr lt have "0 < length (f # fl) \<and> ?S 0 d0" by simp
              then show ?thesis by blast
            next
              assume "\<exists>j<length fl. Suc i + j \<noteq> from_i \<and> nf' = Some (fl ! j) \<and>
                 (\<exists>fx. x (fl ! j) = Some fx \<and> cond (fl ! j) \<and> dist_of fx (fl ! j) = Inr d' \<and> d' < d)"
              from later [OF this] lt show ?thesis by simp
            qed
          next
            case ge: False
            with Cons.prems ni Some True Inr
            have "nearest_scan cond dist_of from_i (Suc i) fl pl nf d0 = Inr (pl', nf', d')"
              by simp
            from Cons.IH [OF this] later [of d0] show ?thesis by blast
          qed
        qed
      qed
    qed
  qed
qed

lemma all_less_Suc_shift: "(\<forall>j<Suc n. Q j) \<longleftrightarrow> Q 0 \<and> (\<forall>j<n. Q (Suc j))"
  by (auto simp: less_Suc_eq_0_disj)

lemma nearest_scan_lower_bound:
  "nearest_scan cond dist_of from_i i fl pl nf d0 = Inr (pl', nf', d') \<Longrightarrow>
     d' \<le> d0 \<and>
     (\<forall>j<length fl. i + j \<noteq> from_i \<longrightarrow>
        (\<forall>fx. x (fl ! j) = Some fx \<and> cond (fl ! j) \<longrightarrow>
           (\<exists>dj. dist_of fx (fl ! j) = Inr dj \<and> d' \<le> dj)))"
proof (induction fl arbitrary: i pl nf d0)
  case Nil
  then show ?case by simp
next
  case (Cons f fl)
  let ?Q = "\<lambda>i j. i + j \<noteq> from_i \<longrightarrow>
        (\<forall>fx. x ((f # fl) ! j) = Some fx \<and> cond ((f # fl) ! j) \<longrightarrow>
           (\<exists>dj. dist_of fx ((f # fl) ! j) = Inr dj \<and> d' \<le> dj))"
  have goal: "d' \<le> d0 \<and> (\<forall>j<length (f # fl). ?Q i j)"
    if run: "nearest_scan cond dist_of from_i (Suc i) fl pl1 nf1 d1 = Inr (pl', nf', d')"
      and le: "d1 \<le> d0"
      and here: "d' \<le> d1 \<Longrightarrow> ?Q i 0"
    for pl1 nf1 d1
  proof -
    from Cons.IH [OF run] have a: "d' \<le> d1"
      and b: "\<forall>j<length fl. Suc i + j \<noteq> from_i \<longrightarrow>
        (\<forall>fx. x (fl ! j) = Some fx \<and> cond (fl ! j) \<longrightarrow>
           (\<exists>dj. dist_of fx (fl ! j) = Inr dj \<and> d' \<le> dj))"
      by blast+
    from b have "\<forall>j<length fl. ?Q i (Suc j)" by simp
    with here [OF a] have "\<forall>j<Suc (length fl). ?Q i j"
      by (simp only: all_less_Suc_shift [where Q = "?Q i"]) 
    with a le show ?thesis by simp
  qed
  show ?case
  proof (cases "i = from_i")
    case True
    with Cons.prems have "nearest_scan cond dist_of from_i (Suc i) fl pl nf d0 = Inr (pl', nf', d')"
      by simp
    from goal [OF this] True show ?thesis by simp
  next
    case ni: False
    show ?thesis
    proof (cases "x f")
      case None
      with Cons.prems ni
      have "nearest_scan cond dist_of from_i (Suc i) fl (Some f) nf d0 = Inr (pl', nf', d')"
        by simp
      from goal [OF this] None show ?thesis by simp
    next
      case (Some fx)
      show ?thesis
      proof (cases "cond f")
        case False
        with Cons.prems ni Some
        have "nearest_scan cond dist_of from_i (Suc i) fl pl nf d0 = Inr (pl', nf', d')"
          by simp
        from goal [OF this] False show ?thesis by simp
      next
        case True
        show ?thesis
        proof (cases "dist_of fx f")
          case (Inl e)
          with Cons.prems ni Some True show ?thesis by simp
        next
          case (Inr d)
          show ?thesis
          proof (cases "d < d0")
            case lt: True
            with Cons.prems ni Some True Inr
            have "nearest_scan cond dist_of from_i (Suc i) fl pl (Some f) d = Inr (pl', nf', d')"
              by simp
            from goal [OF this] lt Some Inr show ?thesis by simp
          next
            case ge: False
            with Cons.prems ni Some True Inr
            have "nearest_scan cond dist_of from_i (Suc i) fl pl nf d0 = Inr (pl', nf', d')"
              by simp
            from goal [OF this] ge Some Inr show ?thesis by simp
          qed
        qed
      qed
    qed
  qed
qed

lemma nearest_scan_returns:
  "\<forall>j<length fl. i + j \<noteq> from_i \<longrightarrow>
      (\<forall>fx. x (fl ! j) = Some fx \<and> cond (fl ! j) \<longrightarrow> (\<exists>d. dist_of fx (fl ! j) = Inr d)) \<Longrightarrow>
   \<exists>r. nearest_scan cond dist_of from_i i fl pl nf d0 = Inr r"
proof (induction fl arbitrary: i pl nf d0)
  case Nil
  then show ?case by simp
next
  case (Cons f fl)
  have rest: "\<forall>j<length fl. Suc i + j \<noteq> from_i \<longrightarrow>
      (\<forall>fx. x (fl ! j) = Some fx \<and> cond (fl ! j) \<longrightarrow> (\<exists>d. dist_of fx (fl ! j) = Inr d))"
  proof (intro allI impI)
    fix j fx
    assume j: "j < length fl" "Suc i + j \<noteq> from_i" "x (fl ! j) = Some fx \<and> cond (fl ! j)"
    from Cons.prems [rule_format, of "Suc j" fx] j
    show "\<exists>d. dist_of fx (fl ! j) = Inr d" by simp
  qed
  note ih = Cons.IH [OF rest]
  show ?case
  proof (cases "i = from_i")
    case True
    with ih [of pl nf d0] show ?thesis by simp
  next
    case ni: False
    show ?thesis
    proof (cases "x f")
      case None
      with ni ih [of "Some f" nf d0] show ?thesis by simp
    next
      case (Some fx)
      show ?thesis
      proof (cases "cond f")
        case False
        with ni Some ih [of pl nf d0] show ?thesis by simp
      next
        case True
        from Cons.prems [rule_format, of 0 fx] ni Some True
        obtain d where d: "dist_of fx f = Inr d" by auto
        show ?thesis
        proof (cases "d < d0")
          case lt: True
          with ni Some True d ih [of pl "Some f" d] show ?thesis by simp
        next
          case False
          with ni Some True d ih [of pl nf d0] show ?thesis by simp
        qed
      qed
    qed
  qed
qed

lemma nearest_scan_all_far:
  "\<forall>j<length fl. i + j \<noteq> from_i \<longrightarrow>
             (\<forall>fx. x (fl ! j) = Some fx \<and> cond (fl ! j) \<longrightarrow>
                (\<exists>d. dist_of fx (fl ! j) = Inr d \<and> T \<le> d)) \<Longrightarrow>
   \<forall>j<length fl. i + j = from_i \<longrightarrow> x (fl ! j) \<noteq> None \<Longrightarrow>
   nearest_scan cond dist_of from_i i fl pl nf T =
           Inr (case filter (\<lambda>g. x g = None) fl of [] \<Rightarrow> pl | p # ps \<Rightarrow> Some (last (p # ps)),
                nf, T)"
proof (induction fl arbitrary: i pl)
  case Nil
  then show ?case by simp
next
  case (Cons f fl)
  have far': "\<forall>j<length fl. Suc i + j \<noteq> from_i \<longrightarrow>
             (\<forall>fx. x (fl ! j) = Some fx \<and> cond (fl ! j) \<longrightarrow>
                (\<exists>d. dist_of fx (fl ! j) = Inr d \<and> T \<le> d))"
  proof (intro allI impI)
    fix j fx
    assume j: "j < length fl" "Suc i + j \<noteq> from_i" "x (fl ! j) = Some fx \<and> cond (fl ! j)"
    from Cons(2) [rule_format, of "Suc j" fx] j
    show "\<exists>d. dist_of fx (fl ! j) = Inr d \<and> T \<le> d"
      by simp
  qed
  have has': "\<forall>j<length fl. Suc i + j = from_i \<longrightarrow> x (fl ! j) \<noteq> None"
  proof (intro allI impI)
    fix j assume j: "j < length fl" "Suc i + j = from_i"
    from Cons(3) [rule_format, of "Suc j"] j show "x (fl ! j) \<noteq> None" by simp
  qed
  note ih = Cons(1) [OF far' has']
  show ?case
  proof (cases "i = from_i")
    case True
    with Cons(3) [rule_format, of 0] have "x f \<noteq> None" by simp
    then obtain fx where xf: "x f = Some fx" by auto
    have step: "nearest_scan cond dist_of from_i i (f # fl) pl nf T =
                nearest_scan cond dist_of from_i (Suc i) fl pl nf T"
      using True by simp
    show ?thesis unfolding step ih using xf by simp
  next
    case ni: False
    show ?thesis
    proof (cases "x f")
      case None
      with ni show ?thesis by (simp add: ih split: list.splits)
    next
      case (Some fx)
      show ?thesis
      proof (cases "cond f")
        case False
        with ni Some show ?thesis by (simp add: ih)
      next
        case True
        from Cons(2) [rule_format, of 0] ni Some True
        obtain d where d: "dist_of fx f = Inr d" "T \<le> d" by auto
        with ni Some True show ?thesis by (simp add: ih)
      qed
    qed
  qed
qed

lemma find_from_nth:
  "find_from fl c i = Some (k, ff) \<Longrightarrow> i \<le> k \<and> k - i < length fl \<and> fl ! (k - i) = ff"
proof (induction fl c i rule: find_from.induct)
  case (1 current i)
  then show ?case by simp
next
  case (2 f fl current i)
  show ?case
  proof (cases "widget f = current")
    case True
    with 2(2) show ?thesis by simp
  next
    case False
    with 2(2) have "find_from fl current (Suc i) = Some (k, ff)" by simp
    from 2(1) [OF False this]
    have ih: "Suc i \<le> k" "k - Suc i < length fl" "fl ! (k - Suc i) = ff" by simp_all
    from ih(1) have "k - i = Suc (k - Suc i)" by arith
    with ih show ?thesis by simp
  qed
qed

lemma focus_nearest_nonempty:
  assumes "focus_list s \<noteq> []" "focused s = Some current"
    and "find_from (focus_list s) current 0 = Some (k, from_focus)"
    and "x from_focus = Some from_x"
  shows "focus_nearest from_x0 from_y0 from_x1 from_y1 to_x0 to_y0 to_x1 to_y1
        line_dist condition xmul ymul wmul hmul pen s =
     (case nearest_scan (condition from_focus)
             (candidate_dist line_dist
                (from_x + w from_focus * from_x0) (y from_focus + h from_focus * from_y0)
                (from_x + w from_focus * from_x1) (y from_focus + h from_focus * from_y1)
                to_x0 to_y0 to_x1 to_y1)
             k 0 (focus_list s) None None ((65536 * pen) ^ 2) of
        Inl e \<Rightarrow> Inl e
      | Inr (placeless, new_focus, d) \<Rightarrow>
          (case (case new_focus of None \<Rightarrow> placeless | Some f \<Rightarrow> Some f) of
             None \<Rightarrow> Inr s
           | Some f \<Rightarrow> Inr (change_focus (Some f) s)))"
proof -
  from assms(1) obtain first rest where ne: "focus_list s = first # rest"
    by (cases "focus_list s") auto
  have "focus_nearest from_x0 from_y0 from_x1 from_y1 to_x0 to_y0 to_x1 to_y1
        line_dist condition xmul ymul wmul hmul pen s =
     (case find_from (focus_list s) current 0 of
                  None \<Rightarrow> Inr (change_focus (Some first) s)
                | Some (from_i, from_focus) \<Rightarrow>
                    (case x from_focus of
                       None \<Rightarrow> Inr (focus_extreme xmul ymul wmul hmul s)
                     | Some from_x \<Rightarrow>
                         (let fx0 = from_x + w from_focus * from_x0;
                              fy0 = y from_focus + h from_focus * from_y0;
                              fx1 = from_x + w from_focus * from_x1;
                              fy1 = y from_focus + h from_focus * from_y1
                          in case nearest_scan (condition from_focus)
                                    (candidate_dist line_dist fx0 fy0 fx1 fy1
                                       to_x0 to_y0 to_x1 to_y1)
                                    from_i 0 (focus_list s) None None ((65536 * pen) ^ 2) of
                               Inl e \<Rightarrow> Inl e
                             | Inr (placeless, new_focus, d) \<Rightarrow>
                                 (case (case new_focus of None \<Rightarrow> placeless | Some f \<Rightarrow> Some f) of
                                    None \<Rightarrow> Inr s
                                  | Some f \<Rightarrow> Inr (change_focus (Some f) s)))))"
    unfolding focus_nearest_def get_focused_def
    by (simp only: ne list.case assms(2) option.case)
  then show ?thesis
    by (simp only: assms(3) assms(4) option.case prod.case Let_def)
qed

lemma all_less_two: "(\<forall>j<Suc (Suc 0). P j) \<longleftrightarrow> P 0 \<and> P (Suc 0)"
  by (auto simp: less_Suc_eq)

lemma all_less_three: "(\<forall>j<Suc (Suc (Suc 0)). P j) \<longleftrightarrow> P 0 \<and> P (Suc 0) \<and> P (Suc (Suc 0))"
  by (auto simp: less_Suc_eq)

lemma ex_less_three: "(\<exists>j<Suc (Suc (Suc 0)). P j) \<longleftrightarrow> P 0 \<or> P (Suc 0) \<or> P (Suc (Suc 0))"
  by (auto simp: less_Suc_eq)

text \<open>
  C10. \<^verbatim>\<open>focus_nearest\<close>, called with a focused widget that has a focus with a place
  in the list. The call returns whenever \<^verbatim>\<open>line_dist\<close> does on every candidate (a
  focus other than the current one that has a place and satisfies the condition).
  Whenever it returns, one of two things happened. Either it passed to
  \<^verbatim>\<open>change_focus\<close> a candidate whose distance is below \<open>(65536 * pen)\<^sup>2\<close> and is
  the least of all candidates; or every candidate is at that distance or farther, and
  it passed the last focus without a place, or left the state as it was when there is
  none. So a candidate at or beyond that distance is never the one focused, also when
  it is the only one.
\<close>

theorem focus_nearest_threshold:
  fixes s :: state
    and line_dist :: "real \<Rightarrow> real \<Rightarrow> real \<Rightarrow> real \<Rightarrow> real \<Rightarrow> real \<Rightarrow> real \<Rightarrow> real \<Rightarrow> error + real"
    and condition :: "Focus \<Rightarrow> Focus \<Rightarrow> bool"
    and fxa fya fxb fyb txa tya txb tyb xmul ymul wmul hmul pen :: real
  defines "fl \<equiv> focus_list s"
  assumes foc: "focused s = Some current"
    and ff: "find_from (focus_list s) current 0 = Some (k, from_focus)"
    and fx: "x from_focus = Some from_x"
  defines "cdist \<equiv> candidate_dist line_dist
                  (from_x + w from_focus * fxa) (y from_focus + h from_focus * fya)
                  (from_x + w from_focus * fxb) (y from_focus + h from_focus * fyb)
                  txa tya txb tyb"
    and "res \<equiv> focus_nearest fxa fya fxb fyb txa tya txb tyb
                  line_dist condition xmul ymul wmul hmul pen s"
    and "fallback \<equiv> (case filter (\<lambda>g. x g = None) (focus_list s) of
                        [] \<Rightarrow> s
                      | p # ps \<Rightarrow> change_focus (Some (last (p # ps))) s)"
  shows
    "((\<forall>j<length fl. j \<noteq> k \<longrightarrow>
        (\<forall>gx. x (fl ! j) = Some gx \<and> condition from_focus (fl ! j) \<longrightarrow>
           (\<exists>d. cdist gx (fl ! j) = Inr d))) \<longrightarrow>
      (\<exists>s'. res = Inr s')) \<and>
     (\<forall>s'. res = Inr s' \<longrightarrow>
        (\<exists>i<length fl. \<exists>gx d. i \<noteq> k \<and> x (fl ! i) = Some gx \<and> condition from_focus (fl ! i) \<and>
            cdist gx (fl ! i) = Inr d \<and> d < (65536 * pen) ^ 2 \<and>
            (\<forall>j<length fl. j \<noteq> k \<longrightarrow>
               (\<forall>gx. x (fl ! j) = Some gx \<and> condition from_focus (fl ! j) \<longrightarrow>
                  (\<exists>dj. cdist gx (fl ! j) = Inr dj \<and> d \<le> dj))) \<and>
            s' = change_focus (Some (fl ! i)) s) \<or>
        ((\<forall>j<length fl. j \<noteq> k \<longrightarrow>
            (\<forall>gx. x (fl ! j) = Some gx \<and> condition from_focus (fl ! j) \<longrightarrow>
               (\<exists>dj. cdist gx (fl ! j) = Inr dj \<and> (65536 * pen) ^ 2 \<le> dj))) \<and>
         s' = fallback)) \<and>
     ((\<forall>j<length fl. j \<noteq> k \<longrightarrow>
         (\<forall>gx. x (fl ! j) = Some gx \<and> condition from_focus (fl ! j) \<longrightarrow>
            (\<exists>dj. cdist gx (fl ! j) = Inr dj \<and> (65536 * pen) ^ 2 \<le> dj))) \<longrightarrow>
      res = Inr fallback)"
proof -
  let ?T = "(65536 * pen) ^ 2"
  let ?scan = "nearest_scan (condition from_focus) cdist k 0 fl None None ?T"
  from find_from_nth [OF ff] have k: "k < length fl" "fl ! k = from_focus"
    by (simp_all add: fl_def)
  then have nonempty: "focus_list s \<noteq> []" by (auto simp: fl_def)
  have res: "res =
     (case ?scan of
        Inl e \<Rightarrow> Inl e
      | Inr (placeless, new_focus, d) \<Rightarrow>
          (case (case new_focus of None \<Rightarrow> placeless | Some f \<Rightarrow> Some f) of
             None \<Rightarrow> Inr s
           | Some f \<Rightarrow> Inr (change_focus (Some f) s)))"
    unfolding res_def cdist_def fl_def
    by (rule focus_nearest_nonempty [OF nonempty foc ff fx])
  have has: "\<forall>j<length fl. 0 + j = k \<longrightarrow> x (fl ! j) \<noteq> None"
    using k fx by simp
  have far_res: "res = Inr fallback"
    if far: "\<forall>j<length fl. j \<noteq> k \<longrightarrow>
         (\<forall>gx. x (fl ! j) = Some gx \<and> condition from_focus (fl ! j) \<longrightarrow>
            (\<exists>dj. cdist gx (fl ! j) = Inr dj \<and> ?T \<le> dj))"
  proof -
    from far have far0: "\<forall>j<length fl. 0 + j \<noteq> k \<longrightarrow>
         (\<forall>gx. x (fl ! j) = Some gx \<and> condition from_focus (fl ! j) \<longrightarrow>
            (\<exists>dj. cdist gx (fl ! j) = Inr dj \<and> ?T \<le> dj))"
      by simp
    note scan = nearest_scan_all_far [OF far0 has, of None None]
    show ?thesis
      unfolding res scan fallback_def by (simp add: fl_def split: list.splits)
  qed
  have returns: "\<exists>s'. res = Inr s'"
    if ok: "\<forall>j<length fl. j \<noteq> k \<longrightarrow>
        (\<forall>gx. x (fl ! j) = Some gx \<and> condition from_focus (fl ! j) \<longrightarrow>
           (\<exists>d. cdist gx (fl ! j) = Inr d))"
  proof -
    from ok have "\<forall>j<length fl. 0 + j \<noteq> k \<longrightarrow>
        (\<forall>gx. x (fl ! j) = Some gx \<and> condition from_focus (fl ! j) \<longrightarrow>
           (\<exists>d. cdist gx (fl ! j) = Inr d))"
      by simp
    from nearest_scan_returns [OF this, of None None ?T]
    obtain r where "?scan = Inr r" by blast
    then show ?thesis
      unfolding res by (cases r) (auto split: option.splits)
  qed
  have dich: "(\<exists>i<length fl. \<exists>gx d. i \<noteq> k \<and> x (fl ! i) = Some gx \<and> condition from_focus (fl ! i) \<and>
            cdist gx (fl ! i) = Inr d \<and> d < ?T \<and>
            (\<forall>j<length fl. j \<noteq> k \<longrightarrow>
               (\<forall>gx. x (fl ! j) = Some gx \<and> condition from_focus (fl ! j) \<longrightarrow>
                  (\<exists>dj. cdist gx (fl ! j) = Inr dj \<and> d \<le> dj))) \<and>
            s' = change_focus (Some (fl ! i)) s) \<or>
        ((\<forall>j<length fl. j \<noteq> k \<longrightarrow>
            (\<forall>gx. x (fl ! j) = Some gx \<and> condition from_focus (fl ! j) \<longrightarrow>
               (\<exists>dj. cdist gx (fl ! j) = Inr dj \<and> ?T \<le> dj))) \<and>
         s' = fallback)"
    if r: "res = Inr s'" for s'
  proof -
    from r res obtain pl' nf' d' where scan: "?scan = Inr (pl', nf', d')"
      by (cases ?scan) (auto split: sum.splits)
    from nearest_scan_lower_bound [OF scan]
    have low: "\<forall>j<length fl. j \<noteq> k \<longrightarrow>
        (\<forall>gx. x (fl ! j) = Some gx \<and> condition from_focus (fl ! j) \<longrightarrow>
           (\<exists>dj. cdist gx (fl ! j) = Inr dj \<and> d' \<le> dj))"
      by simp
    from nearest_scan_selected_index [OF scan]
    have sel: "(nf' = None \<and> d' = ?T) \<or>
       (\<exists>j<length fl. j \<noteq> k \<and> nf' = Some (fl ! j) \<and>
        (\<exists>gx. x (fl ! j) = Some gx \<and> condition from_focus (fl ! j) \<and>
              cdist gx (fl ! j) = Inr d' \<and> d' < ?T))"
      by simp
    then show ?thesis
    proof
      assume "nf' = None \<and> d' = ?T"
      with low have far: "\<forall>j<length fl. j \<noteq> k \<longrightarrow>
            (\<forall>gx. x (fl ! j) = Some gx \<and> condition from_focus (fl ! j) \<longrightarrow>
               (\<exists>dj. cdist gx (fl ! j) = Inr dj \<and> ?T \<le> dj))"
        by simp
      from far_res [OF far] r have "s' = fallback" by simp
      with far show ?thesis by blast
    next
      assume "\<exists>j<length fl. j \<noteq> k \<and> nf' = Some (fl ! j) \<and>
        (\<exists>gx. x (fl ! j) = Some gx \<and> condition from_focus (fl ! j) \<and>
              cdist gx (fl ! j) = Inr d' \<and> d' < ?T)"
      then obtain i gx where i: "i < length fl" "i \<noteq> k" "nf' = Some (fl ! i)"
        "x (fl ! i) = Some gx" "condition from_focus (fl ! i)" "cdist gx (fl ! i) = Inr d'" "d' < ?T"
        by blast
      from r res scan i(3) have "s' = change_focus (Some (fl ! i)) s" by simp
      with i low show ?thesis by blast
    qed
  qed
  from returns dich far_res show ?thesis by blast
qed

theorem focus_nearest_threshold_witness:
  "right_of (region 1 0 0 10 10) (region 2 20 0 10 10) \<and>
   right_of (region 1 0 0 10 10) (region 3 70000 0 10 10) \<and>
   focus_right 1 (idle\<lparr>focus_list := [region 1 0 0 10 10, region 3 70000 0 10 10,
                                       region 2 20 0 10 10],
                       focused := Some 1\<rparr>) =
     Inr (change_focus (Some (region 2 20 0 10 10))
            (idle\<lparr>focus_list := [region 1 0 0 10 10, region 3 70000 0 10 10,
                                  region 2 20 0 10 10],
                  focused := Some 1\<rparr>)) \<and>
   focus_right 1 (idle\<lparr>focus_list := [region 1 0 0 10 10, region 2 20 0 10 10,
                                       region 3 70000 0 10 10],
                       focused := Some 1\<rparr>) =
     Inr (change_focus (Some (region 2 20 0 10 10))
            (idle\<lparr>focus_list := [region 1 0 0 10 10, region 2 20 0 10 10,
                                  region 3 70000 0 10 10],
                  focused := Some 1\<rparr>)) \<and>
   focus_right 1 (idle\<lparr>focus_list := [region 1 0 0 10 10, region 3 70000 0 10 10],
                       focused := Some 1\<rparr>) =
     Inr (idle\<lparr>focus_list := [region 1 0 0 10 10, region 3 70000 0 10 10],
               focused := Some 1\<rparr>) \<and>
   focus_right 1 (idle\<lparr>focus_list := [region 1 0 0 10 10, region 3 70000 0 10 10,
                                       placeless_region 4],
                       focused := Some 1\<rparr>) =
     Inr (change_focus (Some (placeless_region 4))
            (idle\<lparr>focus_list := [region 1 0 0 10 10, region 3 70000 0 10 10,
                                  placeless_region 4],
                  focused := Some 1\<rparr>))"
proof -
  let ?A = "region 1 0 0 10 10"
  let ?B = "region 2 20 0 10 10"
  let ?C = "region 3 70000 0 10 10"
  let ?s = "idle\<lparr>focus_list := [?A, ?C, ?B], focused := Some 1\<rparr>"
  let ?r = "idle\<lparr>focus_list := [?A, ?B, ?C], focused := Some 1\<rparr>"
  let ?t = "idle\<lparr>focus_list := [?A, ?C], focused := Some 1\<rparr>"
  let ?u = "idle\<lparr>focus_list := [?A, ?C, placeless_region 4], focused := Some 1\<rparr>"
  have admB: "right_of ?A ?B" by (simp add: right_of_def region_def)
  have admC: "right_of ?A ?C" by (simp add: right_of_def region_def)
  have dB: "candidate_dist (verti_line_dist 1) 9 1 9 9 (1 / 10) (1 / 10) (1 / 10) (9 / 10)
               20 ?B = Inr 144"
    by (simp add: candidate_dist_def verti_line_dist_def region_def)
  have dC: "candidate_dist (verti_line_dist 1) 9 1 9 9 (1 / 10) (1 / 10) (1 / 10) (9 / 10)
               70000 ?C = Inr 4898880064"
    by (simp add: candidate_dist_def verti_line_dist_def region_def)
  have xA: "x ?A = Some 0" by (simp add: region_def)
  have fs: "focused ?s = Some 1" "find_from (focus_list ?s) 1 0 = Some (0, ?A)"
    by (simp_all add: idle_def region_def)
  have fr: "focused ?r = Some 1" "find_from (focus_list ?r) 1 0 = Some (0, ?A)"
    by (simp_all add: idle_def region_def)
  have ft: "focused ?t = Some 1" "find_from (focus_list ?t) 1 0 = Some (0, ?A)"
    by (simp_all add: idle_def region_def)
  have fu: "focused ?u = Some 1" "find_from (focus_list ?u) 1 0 = Some (0, ?A)"
    by (simp_all add: idle_def region_def)
  note bs = focus_nearest_threshold [OF fs xA, where line_dist = "verti_line_dist 1"
      and condition = right_of and pen = 1 and fxa = "9 / 10" and fya = "1 / 10"
      and fxb = "9 / 10" and fyb = "9 / 10" and txa = "1 / 10" and tya = "1 / 10"
      and txb = "1 / 10" and tyb = "9 / 10" and xmul = "- 1" and ymul = 0 and wmul = 0
      and hmul = 0]
  note br = focus_nearest_threshold [OF fr xA, where line_dist = "verti_line_dist 1"
      and condition = right_of and pen = 1 and fxa = "9 / 10" and fya = "1 / 10"
      and fxb = "9 / 10" and fyb = "9 / 10" and txa = "1 / 10" and tya = "1 / 10"
      and txb = "1 / 10" and tyb = "9 / 10" and xmul = "- 1" and ymul = 0 and wmul = 0
      and hmul = 0]
  note bt = focus_nearest_threshold [OF ft xA, where line_dist = "verti_line_dist 1"
      and condition = right_of and pen = 1 and fxa = "9 / 10" and fya = "1 / 10"
      and fxb = "9 / 10" and fyb = "9 / 10" and txa = "1 / 10" and tya = "1 / 10"
      and txb = "1 / 10" and tyb = "9 / 10" and xmul = "- 1" and ymul = 0 and wmul = 0
      and hmul = 0]
  note bu = focus_nearest_threshold [OF fu xA, where line_dist = "verti_line_dist 1"
      and condition = right_of and pen = 1 and fxa = "9 / 10" and fya = "1 / 10"
      and fxb = "9 / 10" and fyb = "9 / 10" and txa = "1 / 10" and tya = "1 / 10"
      and txb = "1 / 10" and tyb = "9 / 10" and xmul = "- 1" and ymul = 0 and wmul = 0
      and hmul = 0]
  have "\<exists>s'. focus_right 1 ?s = Inr s'"
    unfolding focus_right_def
    using bs [THEN conjunct1] dB dC
    by (simp add: all_less_three idle_def region_def)
  then obtain s' where s': "focus_right 1 ?s = Inr s'" by blast
  from bs [THEN conjunct2, THEN conjunct1, rule_format, OF s' [unfolded focus_right_def]] dB dC admB admC
  have "s' = change_focus (Some ?B) ?s"
    by (simp add: all_less_three ex_less_three idle_def region_def)
  with s' have a: "focus_right 1 ?s = Inr (change_focus (Some ?B) ?s)" by simp
  have "\<exists>r'. focus_right 1 ?r = Inr r'"
    unfolding focus_right_def
    using br [THEN conjunct1] dB dC
    by (simp add: all_less_three idle_def region_def)
  then obtain r' where r': "focus_right 1 ?r = Inr r'" by blast
  from br [THEN conjunct2, THEN conjunct1, rule_format, OF r' [unfolded focus_right_def]] dB dC admB admC
  have "r' = change_focus (Some ?B) ?r"
    by (simp add: all_less_three ex_less_three idle_def region_def)
  with r' have a': "focus_right 1 ?r = Inr (change_focus (Some ?B) ?r)" by simp
  from bt [THEN conjunct2, THEN conjunct2] dC
  have b: "focus_right 1 ?t = Inr ?t"
    unfolding focus_right_def by (simp add: all_less_two idle_def region_def)
  from bu [THEN conjunct2, THEN conjunct2] dC
  have c: "focus_right 1 ?u = Inr (change_focus (Some (placeless_region 4)) ?u)"
    unfolding focus_right_def
    by (simp add: all_less_three idle_def region_def placeless_region_def)
  from admB admC a a' b c show ?thesis by blast
qed

end
